theory Spec2Isabelle
  imports Complex_Main
begin

section \<open>Data model of the page (src/app/agv/page.tsx)\<close>

text \<open>
  JavaScript numbers are modelled as real numbers: the arithmetic of the page is read
  over the reals, without rounding, NaN or infinities.  A \<open>Vec3Tuple\<close> is the
  source's \<^verbatim>\<open>[number, number, number]\<close>.
\<close>

type_synonym Vec3Tuple = "real \<times> real \<times> real"

definition vx :: "Vec3Tuple \<Rightarrow> real" where "vx v = fst v"
definition vy :: "Vec3Tuple \<Rightarrow> real" where "vy v = fst (snd v)"
definition vz :: "Vec3Tuple \<Rightarrow> real" where "vz v = snd (snd v)"

text \<open>
  \<^verbatim>\<open>type UploadedGlb = { id; name; url; position: Vec3Tuple; scale: number }\<close>
\<close>

record UploadedGlb =
  u_id :: string
  u_name :: string
  u_url :: string
  u_position :: Vec3Tuple
  u_scale :: real

text \<open>An attachment rule \<^verbatim>\<open>{ id: string; offset: Vec3Tuple }\<close>.\<close>

record AttachRule =
  r_id :: string
  r_offset :: Vec3Tuple

text \<open>A keyboard event, as far as the handlers of the page read it.\<close>

record KeyboardEvent =
  ctrlKey :: bool
  code :: string

subsection \<open>The scene graph, as far as the page moves objects in it\<close>

text \<open>
  The group of an uploaded asset is a child either of the scene root or of the vehicle
  group (\<open>agvRef.current\<close>).  The vehicle group is itself a child of the scene
  root; the page only ever writes its \<open>position\<close> and \<open>rotation.y\<close>, so its world
  transform is a translation after a rotation about the Y axis.
\<close>

datatype Parent = SceneRoot | Vehicle

record Object3D =
  o_parent :: Parent
  o_position :: Vec3Tuple

record AgvGroup =
  agv_position :: Vec3Tuple
  agv_rotation_y :: real

text \<open>The rotation three.js applies for \<open>rotation.y = a\<close>.\<close>

definition applyRotationY :: "real \<Rightarrow> Vec3Tuple \<Rightarrow> Vec3Tuple" where
  "applyRotationY a p =
     (vx p * cos a + vz p * sin a, vy p, vz p * cos a - vx p * sin a)"

definition localToWorld :: "AgvGroup \<Rightarrow> Vec3Tuple \<Rightarrow> Vec3Tuple" where
  "localToWorld agv p =
     (let q = applyRotationY (agv_rotation_y agv) p
      in (vx (agv_position agv) + vx q, vy (agv_position agv) + vy q,
          vz (agv_position agv) + vz q))"

text \<open>\<^verbatim>\<open>obj.getWorldPosition(world)\<close>\<close>

definition getWorldPosition :: "AgvGroup \<Rightarrow> Object3D \<Rightarrow> Vec3Tuple" where
  "getWorldPosition agv obj =
     (case o_parent obj of
        SceneRoot \<Rightarrow> o_position obj
      | Vehicle \<Rightarrow> localToWorld agv (o_position obj))"

text \<open>
  \<^verbatim>\<open>scene.attach(obj)\<close> makes \<open>obj\<close> a child of the scene root and keeps its
  world transform: the new local position is the old world position.
\<close>

definition scene_attach :: "AgvGroup \<Rightarrow> Object3D \<Rightarrow> Object3D" where
  "scene_attach agv obj = \<lparr>o_parent = SceneRoot, o_position = getWorldPosition agv obj\<rparr>"

text \<open>\<^verbatim>\<open>agv.add(obj)\<close> changes the parent and leaves the local position.\<close>

definition agv_add :: "Object3D \<Rightarrow> Object3D" where
  "agv_add obj = obj\<lparr>o_parent := Vehicle\<rparr>"

definition position_set :: "Vec3Tuple \<Rightarrow> Object3D \<Rightarrow> Object3D" where
  "position_set p obj = obj\<lparr>o_position := p\<rparr>"

subsection \<open>Arrays and sets of JavaScript\<close>

text \<open>
  New entries are pushed at the end of an array, and \<^verbatim>\<open>Array.prototype.pop\<close>
  removes the last element, returning \<^verbatim>\<open>undefined\<close> (here \<open>None\<close>) on an
  empty array.  A \<^verbatim>\<open>Set\<close> keeps its elements in insertion order, without
  duplicates; \<^verbatim>\<open>Array.from\<close> lists them in that order.
\<close>

definition array_pop :: "'a list \<Rightarrow> 'a option \<times> 'a list" where
  "array_pop xs = (if xs = [] then (None, []) else (Some (last xs), butlast xs))"

definition array_push :: "'a list \<Rightarrow> 'a \<Rightarrow> 'a list" where
  "array_push xs x = xs @ [x]"

definition Set_add :: "'a list \<Rightarrow> 'a \<Rightarrow> 'a list" where
  "Set_add xs x = (if x \<in> set xs then xs else xs @ [x])"

definition Set_delete :: "'a list \<Rightarrow> 'a \<Rightarrow> 'a list" where
  "Set_delete xs x = filter (\<lambda>y. y \<noteq> x) xs"

definition Set_has :: "'a list \<Rightarrow> 'a \<Rightarrow> bool" where
  "Set_has xs x = (x \<in> set xs)"

definition new_Set :: "'a list \<Rightarrow> 'a list" where
  "new_Set xs = foldl Set_add [] xs"

subsection \<open>The state of Page\<close>

text \<open>
  The React state and the refs of \<open>Page\<close> that the handlers below read or write.
  \<open>agvPos\<close> is the vehicle position the page keeps (\<open>AGVTelemetry\<close> copies
  \<open>agv.position\<close> into it); \<open>agvRef\<close> is the vehicle group, \<open>None\<close> while it is
  not mounted; \<open>uploadObjectMapRef\<close> maps an upload id to its group in the scene.
\<close>

record page =
  uploads :: "UploadedGlb list"
  draggedUploadId :: "string option"
  isDragging :: bool
  selectedPos :: "Vec3Tuple option"
  carriedIds :: "string list"
  attachRules :: "AttachRule list"
  agvPos :: Vec3Tuple
  uploadHistoryRef :: "UploadedGlb list list"
  pendingUndoRef :: "UploadedGlb list option"
  agvRef :: "AgvGroup option"
  uploadObjectMapRef :: "string \<rightharpoonup> Object3D"

section \<open>Undo (the Ctrl+Z effect of Page)\<close>

text \<open>
  \<^verbatim>\<open>
  const onUndo = (e) => {
    if (!e.ctrlKey || e.code !== "KeyZ") return;
    e.preventDefault();
    const last = uploadHistoryRef.current.pop();
    if (last) setUploads(last);
  };\<close>
  An array is truthy in JavaScript even when it is empty, so \<^verbatim>\<open>if (last)\<close>
  fails only on \<^verbatim>\<open>undefined\<close>.
\<close>

definition onUndo :: "KeyboardEvent \<Rightarrow> page \<Rightarrow> page" where
  "onUndo e s =
     (if \<not> ctrlKey e \<or> code e \<noteq> ''KeyZ'' then s
      else (case array_pop (uploadHistoryRef s) of
              (None, h) \<Rightarrow> s\<lparr>uploadHistoryRef := h\<rparr>
            | (Some l, h) \<Rightarrow> s\<lparr>uploadHistoryRef := h, uploads := l\<rparr>))"

definition ctrl_z :: KeyboardEvent where
  "ctrl_z = \<lparr>ctrlKey = True, code = ''KeyZ''\<rparr>"

section \<open>Attach / carry toggle (the KeyQ effect of Page)\<close>

text \<open>
  \<^verbatim>\<open>setUploads((prev) => prev.map((u) => (u.id === id ? { ...u, position: p } : u)))\<close>
\<close>

definition set_upload_position :: "string \<Rightarrow> Vec3Tuple \<Rightarrow> UploadedGlb list \<Rightarrow> UploadedGlb list" where
  "set_upload_position i p us = map (\<lambda>u. if u_id u = i then u\<lparr>u_position := p\<rparr> else u) us"

definition pickRadius :: real where
  "pickRadius = 2"

text \<open>The horizontal distance of the toggle: \<^verbatim>\<open>Math.sqrt(dx * dx + dz * dz)\<close>.\<close>

definition dist_xz :: "Vec3Tuple \<Rightarrow> Vec3Tuple \<Rightarrow> real" where
  "dist_xz world a =
     (let dx = vx world - vx a; dz = vz world - vz a in sqrt (dx * dx + dz * dz))"

text \<open>
  One iteration of \<^verbatim>\<open>for (const rule of attachRules)\<close>; the loop state is the
  set \<open>nextCarried\<close> and the page state.
  \<^verbatim>\<open>
  const obj = uploadObjectMapRef.current.get(rule.id) ?? null;
  if (!obj) continue;
  if (nextCarried.has(rule.id)) {
    const world = new THREE.Vector3();
    obj.getWorldPosition(world);
    const newPos = [world.x, world.y, world.z];
    if (sceneRef.current) sceneRef.current.attach(obj);
    else agvRef.current?.parent?.attach(obj);
    setUploads((prev) => prev.map((u) => (u.id === rule.id ? { ...u, position: newPos } : u)));
    nextCarried.delete(rule.id);
    continue;
  }
  const world = new THREE.Vector3();
  obj.getWorldPosition(world);
  const dx = world.x - agvPos[0];
  const dz = world.z - agvPos[2];
  const dist = Math.sqrt(dx * dx + dz * dz);
  if (dist > pickRadius) continue;
  agv.add(obj);
  obj.position.set(rule.offset[0], rule.offset[1], rule.offset[2]);
  setUploads((prev) => prev.map((u) => (u.id === rule.id ? { ...u, position: rule.offset } : u)));
  nextCarried.add(rule.id);\<close>
  The parent of the vehicle group is the scene, so both branches of the
  \<open>sceneRef\<close> test attach the object to the scene root.
\<close>

definition toggle_rule :: "AgvGroup \<Rightarrow> string list \<times> page \<Rightarrow> AttachRule \<Rightarrow> string list \<times> page" where
  "toggle_rule agv acc rule =
     (let nextCarried = fst acc; s = snd acc in
      case uploadObjectMapRef s (r_id rule) of
        None \<Rightarrow> acc
      | Some obj \<Rightarrow>
          if Set_has nextCarried (r_id rule) then
            let newPos = getWorldPosition agv obj in
            (Set_delete nextCarried (r_id rule),
             s\<lparr>uploadObjectMapRef := (uploadObjectMapRef s)(r_id rule \<mapsto> scene_attach agv obj),
               uploads := set_upload_position (r_id rule) newPos (uploads s)\<rparr>)
          else
            let world = getWorldPosition agv obj in
            if dist_xz world (agvPos s) > pickRadius then acc
            else
              (Set_add nextCarried (r_id rule),
               s\<lparr>uploadObjectMapRef :=
                    (uploadObjectMapRef s)(r_id rule \<mapsto> position_set (r_offset rule) (agv_add obj)),
                 uploads := set_upload_position (r_id rule) (r_offset rule) (uploads s)\<rparr>))"

text \<open>
  \<^verbatim>\<open>
  const onKey = (e) => {
    if (e.code !== "KeyQ") return;
    setCarriedIds((prevCarried) => {
      const agv = agvRef.current;
      if (!agv) return prevCarried;
      const nextCarried = new Set(prevCarried);
      for (const rule of attachRules) { ... }
      return Array.from(nextCarried);
    });
  };\<close>
\<close>

definition onKeyQ :: "KeyboardEvent \<Rightarrow> page \<Rightarrow> page" where
  "onKeyQ e s =
     (if code e \<noteq> ''KeyQ'' then s
      else case agvRef s of
             None \<Rightarrow> s
           | Some agv \<Rightarrow>
               (let r = foldl (toggle_rule agv) (new_Set (carriedIds s), s) (attachRules s)
                in (snd r)\<lparr>carriedIds := fst r\<rparr>))"

definition key_q :: KeyboardEvent where
  "key_q = \<lparr>ctrlKey = False, code = ''KeyQ''\<rparr>"

text \<open>
  The Add Rule button: an offset is the asset's world position minus \<open>agvPos\<close>, and
  the rules are merged through a \<^verbatim>\<open>Map\<close> keyed by id, so that a rule for an id
  that has one already takes its place.
  \<^verbatim>\<open>
  const rules = selectedUploadIds.map((id) => {
      const obj = uploadObjectMapRef.current.get(id);
      if (!obj) return null;
      const world = obj.getWorldPosition(new THREE.Vector3());
      const offset = [world.x - agvPos[0], world.y - agvPos[1], world.z - agvPos[2]];
      return { id, offset };
    }).filter(Boolean);
  if (!rules.length) return;
  setAttachRules((prev) => {
    const map = new Map(prev.map((r) => [r.id, r]));
    for (const r of rules) map.set(r.id, r);
    return Array.from(map.values());
  });\<close>
  The world position is read through the vehicle group for an asset that is carried;
  the button can be pressed while the vehicle is not mounted only for assets of the
  scene root, whose world position does not depend on it.
\<close>

definition Map_set :: "AttachRule list \<Rightarrow> AttachRule \<Rightarrow> AttachRule list" where
  "Map_set m r =
     (if r_id r \<in> set (map r_id m) then map (\<lambda>q. if r_id q = r_id r then r else q) m
      else m @ [r])"

definition rule_for :: "AgvGroup \<Rightarrow> page \<Rightarrow> string \<Rightarrow> AttachRule option" where
  "rule_for agv s i =
     (case uploadObjectMapRef s i of
        None \<Rightarrow> None
      | Some obj \<Rightarrow>
          (let world = getWorldPosition agv obj
           in Some \<lparr>r_id = i,
                    r_offset = (vx world - vx (agvPos s), vy world - vy (agvPos s),
                                vz world - vz (agvPos s))\<rparr>))"

definition addRule :: "AgvGroup \<Rightarrow> string list \<Rightarrow> page \<Rightarrow> page" where
  "addRule agv selectedUploadIds s =
     (let rules = List.map_filter (rule_for agv s) selectedUploadIds
      in if rules = [] then s
         else s\<lparr>attachRules := foldl Map_set (foldl Map_set [] (attachRules s)) rules\<rparr>)"

text \<open>
  \<open>AGVTelemetry\<close>, which keeps \<open>agvPos\<close>: a frame \<open>dt\<close> seconds after the last one
  copies the position of the vehicle group into \<open>agvPos\<close> only when a tenth of a
  second has been accumulated.
  \<^verbatim>\<open>
  useFrame((_, dt) => {
    acc.current += dt;
    if (acc.current < 0.1) return;
    acc.current = 0;
    const agv = agvRef.current;
    if (!agv) return;
    onUpdate([agv.position.x, agv.position.y, agv.position.z]);
  });\<close>
\<close>

definition AGVTelemetry :: "real \<Rightarrow> real \<times> page \<Rightarrow> real \<times> page" where
  "AGVTelemetry dt st =
     (let acc = fst st + dt in
      if acc < 0.1 then (acc, snd st)
      else (0, case agvRef (snd st) of
                 None \<Rightarrow> snd st
               | Some agv \<Rightarrow> (snd st)\<lparr>agvPos := agv_position agv\<rparr>))"

text \<open>
  An example page: an unrotated vehicle at the origin, one asset \<open>box\<close> of the scene
  root half a unit away from it, and a rule that carries the box one unit away.
\<close>

definition demo_agv :: AgvGroup where
  "demo_agv = \<lparr>agv_position = (0, 0, 0), agv_rotation_y = 0\<rparr>"

definition demo_rule :: AttachRule where
  "demo_rule = \<lparr>r_id = ''box'', r_offset = (1, 0, 0)\<rparr>"

definition demo_obj :: Object3D where
  "demo_obj = \<lparr>o_parent = SceneRoot, o_position = (1/2, 0, 0)\<rparr>"

definition demo_page :: page where
  "demo_page =
     \<lparr>uploads = [\<lparr>u_id = ''box'', u_name = ''box.glb'', u_url = ''/uploads/1-box.glb'',
                  u_position = (1/2, 0, 0), u_scale = 1\<rparr>],
      draggedUploadId = None, isDragging = False, selectedPos = None,
      carriedIds = [], attachRules = [demo_rule], agvPos = (0, 0, 0),
      uploadHistoryRef = [], pendingUndoRef = None, agvRef = Some demo_agv,
      uploadObjectMapRef = [''box'' \<mapsto> demo_obj]\<rparr>"

text \<open>The same page with the box standing where the rule carries it.\<close>

definition demo_obj_at_offset :: Object3D where
  "demo_obj_at_offset = \<lparr>o_parent = SceneRoot, o_position = (1, 0, 0)\<rparr>"

definition demo_page_at_offset :: page where
  "demo_page_at_offset = demo_page\<lparr>uploadObjectMapRef := [''box'' \<mapsto> demo_obj_at_offset]\<rparr>"

section \<open>Drag controller (DragMove and its callbacks in Page)\<close>

text \<open>
  A pointer event, as far as \<open>DragMove\<close> reads it.  \<open>pointerRay\<close> is the ray that
  \<^verbatim>\<open>raycaster.setFromCamera(mouse, camera)\<close> builds for the pointer position of the
  event; the camera and its projection stay outside the model.
\<close>

record Ray =
  ray_origin :: Vec3Tuple
  ray_direction :: Vec3Tuple

record PointerEvent =
  button :: int
  clientX :: real
  clientY :: real
  pointerRay :: Ray

text \<open>
  \<^verbatim>\<open>raycaster.ray.intersectPlane(plane, point)\<close> of three.js for the plane
  \<^verbatim>\<open>plane.set(new THREE.Vector3(0, 1, 0), -h)\<close>: the denominator is the dot product of
  the normal and the direction; a ray parallel to the plane meets it only when its
  origin lies on it (at parameter 0), and a ray pointing away from the plane misses it.
\<close>

definition ray_at :: "Ray \<Rightarrow> real \<Rightarrow> Vec3Tuple" where
  "ray_at ray t =
     (vx (ray_origin ray) + vx (ray_direction ray) * t,
      vy (ray_origin ray) + vy (ray_direction ray) * t,
      vz (ray_origin ray) + vz (ray_direction ray) * t)"

definition distanceToPlane :: "Ray \<Rightarrow> real \<Rightarrow> real option" where
  "distanceToPlane ray h =
     (let denominator = vy (ray_direction ray) in
      if denominator = 0 then (if vy (ray_origin ray) - h = 0 then Some 0 else None)
      else (let t = - (vy (ray_origin ray) - h) / denominator
            in if t \<ge> 0 then Some t else None))"

definition intersectPlane :: "Ray \<Rightarrow> real \<Rightarrow> Vec3Tuple option" where
  "intersectPlane ray h =
     (case distanceToPlane ray h of None \<Rightarrow> None | Some t \<Rightarrow> Some (ray_at ray t))"

text \<open>
  The raycast of a pointer-down: every hit is given by the chain of nodes from the hit
  object up to the scene, each node either the vehicle group or another node with its
  \<open>userData.uploadId\<close> and its world position.
\<close>

datatype SceneNode = AgvNode | OtherNode "string option" Vec3Tuple

text \<open>
  A string that may be absent (\<^verbatim>\<open>null\<close>, \<^verbatim>\<open>undefined\<close>) is truthy when it is
  present and not empty.
\<close>

definition truthy :: "string option \<Rightarrow> bool" where
  "truthy i = (case i of None \<Rightarrow> False | Some x \<Rightarrow> x \<noteq> [])"

text \<open>
  \<^verbatim>\<open>
  let cur = h.object;
  while (cur) {
    if (agvRef.current && cur === agvRef.current) break;
    const id = cur.userData?.uploadId;
    if (id) { ... return; }
    cur = cur.parent;
  }\<close>
\<close>

fun walk_up :: "SceneNode list \<Rightarrow> (string \<times> Vec3Tuple) option" where
  "walk_up [] = None"
| "walk_up (AgvNode # rest) = None"
| "walk_up (OtherNode None wp # rest) = walk_up rest"
| "walk_up (OtherNode (Some i) wp # rest) = (if i \<noteq> [] then Some (i, wp) else walk_up rest)"

fun find_grab :: "SceneNode list list \<Rightarrow> (string \<times> Vec3Tuple) option" where
  "find_grab [] = None"
| "find_grab (h # hs) = (case walk_up h of Some g \<Rightarrow> Some g | None \<Rightarrow> find_grab hs)"

datatype DragMode = ModeY | ModeXZ

text \<open>The refs of \<open>DragMove\<close>.\<close>

record DragMove =
  draggingRef :: bool
  dragYRef :: "real option"
  dragPosRef :: "Vec3Tuple option"
  lastPointerRef :: "(real \<times> real) option"
  arrowDownRef :: bool
  dragModeRef :: "DragMode option"
  dragOffsetRef :: "Vec3Tuple option"

text \<open>The callback props of \<open>DragMove\<close>: a handler returns the one it calls, if any.\<close>

datatype Callback = Pick "string option" | Move Vec3Tuple | Drop

definition onKeyDown :: "KeyboardEvent \<Rightarrow> DragMove \<Rightarrow> DragMove" where
  "onKeyDown e d = (if code e = ''ArrowDown'' then d\<lparr>arrowDownRef := True\<rparr> else d)"

definition onKeyUp :: "KeyboardEvent \<Rightarrow> DragMove \<Rightarrow> DragMove" where
  "onKeyUp e d = (if code e = ''ArrowDown'' then d\<lparr>arrowDownRef := False\<rparr> else d)"

text \<open>
  \<^verbatim>\<open>
  if (e.button !== 0) return;
  ... const hits = raycaster.intersectObjects(scene.children, true);
  for (const h of hits) { ... if (id) {
      const wp = new THREE.Vector3();
      cur.getWorldPosition(wp);
      dragYRef.current = wp.y;
      dragPosRef.current = [wp.x, wp.y, wp.z];
      lastPointerRef.current = { x: e.clientX, y: e.clientY };
      dragModeRef.current = null;
      plane.set(new THREE.Vector3(0, 1, 0), -wp.y);
      if (raycaster.ray.intersectPlane(plane, point)) {
        dragOffsetRef.current = new THREE.Vector3(wp.x - point.x, 0, wp.z - point.z);
      } else {
        dragOffsetRef.current = new THREE.Vector3(0, 0, 0);
      }
      onPick(id);
      draggingRef.current = true;
      return;
  } ... }
  onPick(null);\<close>
\<close>

definition grab_offset :: "PointerEvent \<Rightarrow> Vec3Tuple \<Rightarrow> Vec3Tuple" where
  "grab_offset e wp =
     (case intersectPlane (pointerRay e) (vy wp) of
        Some point \<Rightarrow> (vx wp - vx point, 0, vz wp - vz point)
      | None \<Rightarrow> (0, 0, 0))"

definition onPointerDown ::
  "PointerEvent \<Rightarrow> SceneNode list list \<Rightarrow> DragMove \<Rightarrow> DragMove \<times> Callback option" where
  "onPointerDown e hits d =
     (if button e \<noteq> 0 then (d, None)
      else case find_grab hits of
             None \<Rightarrow> (d, Some (Pick None))
           | Some (i, wp) \<Rightarrow>
               (d\<lparr>dragYRef := Some (vy wp),
                  dragPosRef := Some (vx wp, vy wp, vz wp),
                  lastPointerRef := Some (clientX e, clientY e),
                  dragModeRef := None,
                  dragOffsetRef := Some (grab_offset e wp),
                  draggingRef := True\<rparr>,
                Some (Pick (Some i))))"

text \<open>
  \<^verbatim>\<open>
  const onPointerUp = () => {
    if (draggingRef.current) onDrop();
    draggingRef.current = false;
    dragYRef.current = null;
    dragPosRef.current = null;
    lastPointerRef.current = null;
    dragModeRef.current = null;
    dragOffsetRef.current = null;
  };\<close>
  The same handler is registered for \<open>pointerup\<close> and \<open>pointerleave\<close>.
\<close>

definition onPointerUp :: "DragMove \<Rightarrow> DragMove \<times> Callback option" where
  "onPointerUp d =
     (d\<lparr>draggingRef := False, dragYRef := None, dragPosRef := None, lastPointerRef := None,
        dragModeRef := None, dragOffsetRef := None\<rparr>,
      if draggingRef d then Some Drop else None)"

text \<open>
  The pointer-move handler, in the three parts of its body.  First the mode:
  \<^verbatim>\<open>
  const last = lastPointerRef.current ?? { x: e.clientX, y: e.clientY };
  if (!dragModeRef.current && !arrowDownRef.current) {
    const dx = Math.abs(e.clientX - last.x);
    const dy = Math.abs(e.clientY - last.y);
    dragModeRef.current = dy > dx * 1.3 ? "Y" : "XZ";
  }\<close>
\<close>

definition lastPointer :: "PointerEvent \<Rightarrow> DragMove \<Rightarrow> real \<times> real" where
  "lastPointer e d = (case lastPointerRef d of Some l \<Rightarrow> l | None \<Rightarrow> (clientX e, clientY e))"

definition currentPos :: "real \<Rightarrow> DragMove \<Rightarrow> Vec3Tuple" where
  "currentPos groundY d = (case dragPosRef d of Some p \<Rightarrow> p | None \<Rightarrow> (0, groundY, 0))"

definition choose_mode :: "PointerEvent \<Rightarrow> DragMove \<Rightarrow> DragMove" where
  "choose_mode e d =
     (if dragModeRef d = None \<and> \<not> arrowDownRef d then
        (let dx = \<bar>clientX e - fst (lastPointer e d)\<bar>;
             dy = \<bar>clientY e - snd (lastPointer e d)\<bar>
         in d\<lparr>dragModeRef := Some (if dy > dx * 1.3 then ModeY else ModeXZ)\<rparr>)
      else d)"

text \<open>
  The vertical move:
  \<^verbatim>\<open>
  const dy = e.clientY - last.y;
  const nextY = currentPos[1] - dy * 0.02;
  const next = [currentPos[0], nextY, currentPos[2]];
  dragPosRef.current = next;
  lastPointerRef.current = { x: e.clientX, y: e.clientY };
  onMove(next);
  return;\<close>
\<close>

definition vertical_move :: "real \<Rightarrow> PointerEvent \<Rightarrow> DragMove \<Rightarrow> DragMove \<times> Callback option" where
  "vertical_move groundY e d =
     (let dy = clientY e - snd (lastPointer e d);
          nextY = vy (currentPos groundY d) - dy * 0.02;
          next = (vx (currentPos groundY d), nextY, vz (currentPos groundY d))
      in (d\<lparr>dragPosRef := Some next, lastPointerRef := Some (clientX e, clientY e)\<rparr>,
          Some (Move next)))"

text \<open>
  The horizontal move:
  \<^verbatim>\<open>
  lastPointerRef.current = { x: e.clientX, y: e.clientY };
  ... raycaster.setFromCamera(mouse, camera);
  const planeY = dragYRef.current ?? currentPos[1] ?? groundY;
  plane.set(new THREE.Vector3(0, 1, 0), -planeY);
  if (raycaster.ray.intersectPlane(plane, point)) {
    const offset = dragOffsetRef.current ?? new THREE.Vector3(0, 0, 0);
    const next = [point.x + offset.x, planeY, point.z + offset.z];
    dragPosRef.current = next;
    onMove(next);
  }\<close>
\<close>

definition horizontal_move :: "real \<Rightarrow> PointerEvent \<Rightarrow> DragMove \<Rightarrow> DragMove \<times> Callback option" where
  "horizontal_move groundY e d =
     (let d1 = d\<lparr>lastPointerRef := Some (clientX e, clientY e)\<rparr>;
          planeY = (case dragYRef d of Some y \<Rightarrow> y | None \<Rightarrow> vy (currentPos groundY d))
      in case intersectPlane (pointerRay e) planeY of
           None \<Rightarrow> (d1, None)
         | Some point \<Rightarrow>
             (let offset = (case dragOffsetRef d of Some off \<Rightarrow> off | None \<Rightarrow> (0, 0, 0));
                  next = (vx point + vx offset, planeY, vz point + vz offset)
              in (d1\<lparr>dragPosRef := Some next\<rparr>, Some (Move next))))"

text \<open>
  \<^verbatim>\<open>
  const onPointerMove = (e) => {
    if (!draggingRef.current) return;
    ...
    if (!dragModeRef.current && !arrowDownRef.current) { ... }
    if (arrowDownRef.current || dragModeRef.current === "Y") { ... return; }
    ...
  };\<close>
\<close>

definition onPointerMove :: "real \<Rightarrow> PointerEvent \<Rightarrow> DragMove \<Rightarrow> DragMove \<times> Callback option" where
  "onPointerMove groundY e d =
     (if \<not> draggingRef d then (d, None)
      else (let d1 = choose_mode e d
            in if arrowDownRef d1 \<or> dragModeRef d1 = Some ModeY then vertical_move groundY e d1
               else horizontal_move groundY e d1))"

subsection \<open>The callbacks Page passes to DragMove\<close>

text \<open>
  \<^verbatim>\<open>
  onPick={(id) => {
    setDraggedUploadId(id);
    setIsDragging(!!id);
    if (id) {
      pendingUndoRef.current = uploads.map((u) => ({ ...u, position: [...u.position] }));
    }
    if (!id) { setSelectedPos(null); return; }
    const found = uploads.find((u) => u.id === id);
    if (found) setSelectedPos(found.position);
  }}\<close>
\<close>

definition copy_upload :: "UploadedGlb \<Rightarrow> UploadedGlb" where
  "copy_upload u = u\<lparr>u_position := (vx (u_position u), vy (u_position u), vz (u_position u))\<rparr>"

definition onPick :: "string option \<Rightarrow> page \<Rightarrow> page" where
  "onPick i s =
     (let s1 = s\<lparr>draggedUploadId := i, isDragging := truthy i\<rparr> in
      if truthy i then
        (let s2 = s1\<lparr>pendingUndoRef := Some (map copy_upload (uploads s))\<rparr>
         in case find (\<lambda>u. Some (u_id u) = i) (uploads s) of
              Some found \<Rightarrow> s2\<lparr>selectedPos := Some (u_position found)\<rparr>
            | None \<Rightarrow> s2)
      else s1\<lparr>selectedPos := None\<rparr>)"

text \<open>
  \<^verbatim>\<open>
  onMove={(pos) => {
    if (!draggedUploadId) return;
    setUploads((prev) => prev.map((u) => (u.id === draggedUploadId ? { ...u, position: pos } : u)));
    setSelectedPos(pos);
  }}\<close>
  The group of an upload takes its position from the prop:
  \<^verbatim>\<open><group ref={groupRef} position={position} ... userData={{ uploadId: id }}>\<close> in
  \<open>UploadedGLB\<close>, rendered by \<^verbatim>\<open>uploads.map((u) => <UploadedGLB ... position={u.position} />)\<close>.
  So the render that follows \<open>setUploads\<close> writes the new position into the group of
  the dragged upload (the map holds the groups of the mounted uploads), as its local
  position under whatever parent the group has.
\<close>

definition UploadedGLB_position ::
  "string \<Rightarrow> Vec3Tuple \<Rightarrow> (string \<rightharpoonup> Object3D) \<Rightarrow> (string \<rightharpoonup> Object3D)" where
  "UploadedGLB_position i p objs =
     (case objs i of None \<Rightarrow> objs | Some obj \<Rightarrow> objs(i \<mapsto> position_set p obj))"

definition onMove :: "Vec3Tuple \<Rightarrow> page \<Rightarrow> page" where
  "onMove pos s =
     (case draggedUploadId s of
        None \<Rightarrow> s
      | Some i \<Rightarrow>
          if i = [] then s
          else s\<lparr>uploads := set_upload_position i pos (uploads s), selectedPos := Some pos,
                 uploadObjectMapRef := UploadedGLB_position i pos (uploadObjectMapRef s)\<rparr>)"

text \<open>
  \<^verbatim>\<open>
  onDrop={() => {
    if (pendingUndoRef.current) {
      uploadHistoryRef.current.push(pendingUndoRef.current);
      pendingUndoRef.current = null;
    }
    setDraggedUploadId(null);
    setIsDragging(false);
  }}\<close>
\<close>

definition onDrop :: "page \<Rightarrow> page" where
  "onDrop s =
     (let s1 = (case pendingUndoRef s of
                  Some snap \<Rightarrow> s\<lparr>uploadHistoryRef := array_push (uploadHistoryRef s) snap,
                                  pendingUndoRef := None\<rparr>
                | None \<Rightarrow> s)
      in s1\<lparr>draggedUploadId := None, isDragging := False\<rparr>)"

definition deliver :: "Callback option \<Rightarrow> page \<Rightarrow> page" where
  "deliver c s =
     (case c of
        None \<Rightarrow> s
      | Some (Pick i) \<Rightarrow> onPick i s
      | Some (Move pos) \<Rightarrow> onMove pos s
      | Some Drop \<Rightarrow> onDrop s)"

subsection \<open>The events of a drag, on DragMove and Page together\<close>

text \<open>
  \<open>DragMove\<close> receives \<open>groundY = agvPos[1]\<close> from \<open>Page\<close>.  The key events
  are those of the listeners of \<open>DragMove\<close>.
\<close>

datatype DragEvent =
    KeyDown KeyboardEvent
  | KeyUp KeyboardEvent
  | PointerDown PointerEvent "SceneNode list list"
  | PointerMove PointerEvent
  | PointerUp
  | PointerLeave

fun drag_step :: "DragMove \<times> page \<Rightarrow> DragEvent \<Rightarrow> DragMove \<times> page" where
  "drag_step (d, s) (KeyDown e) = (onKeyDown e d, s)"
| "drag_step (d, s) (KeyUp e) = (onKeyUp e d, s)"
| "drag_step (d, s) (PointerDown e hits) =
     (let r = onPointerDown e hits d in (fst r, deliver (snd r) s))"
| "drag_step (d, s) (PointerMove e) =
     (let r = onPointerMove (vy (agvPos s)) e d in (fst r, deliver (snd r) s))"
| "drag_step (d, s) PointerUp = (let r = onPointerUp d in (fst r, deliver (snd r) s))"
| "drag_step (d, s) PointerLeave = (let r = onPointerUp d in (fst r, deliver (snd r) s))"

text \<open>
  The events that can reach the handlers between a pointer-down and the drop that ends
  the session it opened.
\<close>

fun within_session :: "DragEvent \<Rightarrow> bool" where
  "within_session (KeyDown e) = True"
| "within_session (KeyUp e) = True"
| "within_session (PointerMove e) = True"
| "within_session (PointerDown e hits) = False"
| "within_session PointerUp = False"
| "within_session PointerLeave = False"

fun is_drop :: "DragEvent \<Rightarrow> bool" where
  "is_drop PointerUp = True"
| "is_drop PointerLeave = True"
| "is_drop (KeyDown e) = False"
| "is_drop (KeyUp e) = False"
| "is_drop (PointerMove e) = False"
| "is_drop (PointerDown e hits) = False"

definition drag_run :: "DragMove \<times> page \<Rightarrow> DragEvent list \<Rightarrow> DragMove \<times> page" where
  "drag_run = foldl drag_step"

text \<open>
  A grab-drag-drop cycle: a pointer-down with button 0 whose raycast finds an uploaded
  asset, the events of the session, and the pointer-up or pointer-leave that drops.
\<close>

record Cycle =
  c_down :: PointerEvent
  c_hits :: "SceneNode list list"
  c_session :: "DragEvent list"
  c_drop :: DragEvent

definition cycle_events :: "Cycle \<Rightarrow> DragEvent list" where
  "cycle_events c = PointerDown (c_down c) (c_hits c) # c_session c @ [c_drop c]"

definition drag_cycle :: "Cycle \<Rightarrow> bool" where
  "drag_cycle c =
     (button (c_down c) = 0 \<and> find_grab (c_hits c) \<noteq> None
      \<and> list_all within_session (c_session c) \<and> is_drop (c_drop c))"

definition run_cycles :: "DragMove \<times> page \<Rightarrow> Cycle list \<Rightarrow> DragMove \<times> page" where
  "run_cycles = foldl (\<lambda>st c. drag_run st (cycle_events c))"

text \<open>No drag is under way and no snapshot is pending.\<close>

definition idle :: "DragMove \<times> page \<Rightarrow> bool" where
  "idle st = (\<not> draggingRef (fst st) \<and> pendingUndoRef (snd st) = None)"

text \<open>What the events of a session leave as it is.\<close>

definition session_frame :: "DragMove \<times> page \<Rightarrow> DragMove \<times> page \<Rightarrow> bool" where
  "session_frame st st' =
     (draggingRef (fst st') = draggingRef (fst st)
      \<and> dragYRef (fst st') = dragYRef (fst st)
      \<and> dragOffsetRef (fst st') = dragOffsetRef (fst st)
      \<and> pendingUndoRef (snd st') = pendingUndoRef (snd st)
      \<and> uploadHistoryRef (snd st') = uploadHistoryRef (snd st)
      \<and> draggedUploadId (snd st') = draggedUploadId (snd st)
      \<and> (case dragModeRef (fst st) of None \<Rightarrow> True | Some m \<Rightarrow> dragModeRef (fst st') = Some m))"

text \<open>
  An example drag on the example page: the refs of a freshly mounted \<open>DragMove\<close>, a
  pointer-down over the box (the ray meets the plane of the box at the origin, half a
  unit from the box), a move of ten pixels to the right, and a move of fifty pixels
  down.
\<close>

definition DragMove_init :: DragMove where
  "DragMove_init =
     \<lparr>draggingRef = False, dragYRef = None, dragPosRef = None, lastPointerRef = None,
      arrowDownRef = False, dragModeRef = None, dragOffsetRef = None\<rparr>"

definition demo_down :: PointerEvent where
  "demo_down = \<lparr>button = 0, clientX = 100, clientY = 100,
                 pointerRay = \<lparr>ray_origin = (0, 10, 0), ray_direction = (0, -1, 0)\<rparr>\<rparr>"

definition demo_hits :: "SceneNode list list" where
  "demo_hits = [[OtherNode None (1/2, 0, 0), OtherNode (Some ''box'') (1/2, 0, 0)]]"

definition demo_right :: PointerEvent where
  "demo_right = \<lparr>button = 0, clientX = 110, clientY = 100,
                  pointerRay = \<lparr>ray_origin = (3, 10, 4), ray_direction = (0, -1, 0)\<rparr>\<rparr>"

definition demo_below :: PointerEvent where
  "demo_below = \<lparr>button = 0, clientX = 110, clientY = 150,
                  pointerRay = \<lparr>ray_origin = (5, 10, 6), ray_direction = (0, -1, 0)\<rparr>\<rparr>"

definition arrow_down :: KeyboardEvent where
  "arrow_down = \<lparr>ctrlKey = False, code = ''ArrowDown''\<rparr>"

definition demo_cycle :: Cycle where
  "demo_cycle = \<lparr>c_down = demo_down, c_hits = demo_hits,
                  c_session = [PointerMove demo_right], c_drop = PointerUp\<rparr>"

text \<open>A click on the box: the pointer leaves the canvas without having moved.\<close>

definition demo_click :: Cycle where
  "demo_click = \<lparr>c_down = demo_down, c_hits = demo_hits, c_session = [], c_drop = PointerLeave\<rparr>"

section \<open>Hover picking (MeshPicker)\<close>

text \<open>
  A hit of the raycast of \<open>MeshPicker\<close>: the object hit, by its uuid, the uuids of its
  ancestors (its parent first), and the size of its bounding box, which
  \<^verbatim>\<open>box.setFromObject(obj); box.getSize(...)\<close> computes.
\<close>

record PickHit =
  h_uuid :: string
  h_ancestors :: "string list"
  h_size :: Vec3Tuple

text \<open>
  \<^verbatim>\<open>
  const isDescendantOf = (obj, ancestor) => {
    let cur = obj;
    while (cur) { if (cur === ancestor) return true; cur = cur.parent; }
    return false;
  };\<close>
\<close>

definition isDescendantOf :: "PickHit \<Rightarrow> string \<Rightarrow> bool" where
  "isDescendantOf obj ancestor = (ancestor \<in> set (h_uuid obj # h_ancestors obj))"

text \<open>
  A volume is a real number or \<^verbatim>\<open>Number.POSITIVE_INFINITY\<close>, here \<open>None\<close>.
  \<^verbatim>\<open>const volume = size.x * size.y * size.z || Number.POSITIVE_INFINITY;\<close> takes the
  infinite volume when the product is zero; \<open>volume < bestVolume\<close> is the order of
  the numbers with infinity on top.
\<close>

definition bbox_volume :: "Vec3Tuple \<Rightarrow> real option" where
  "bbox_volume sz = (let v = vx sz * vy sz * vz sz in if v = 0 then None else Some v)"

fun volume_less :: "real option \<Rightarrow> real option \<Rightarrow> bool" where
  "volume_less (Some a) (Some b) = (a < b)"
| "volume_less (Some a) None = True"
| "volume_less None b = False"

text \<open>
  \<^verbatim>\<open>
  let best = null;
  let bestVolume = Number.POSITIVE_INFINITY;
  for (const h of hits) {
    const obj = h.object;
    if (agvRef.current && isDescendantOf(obj, agvRef.current)) continue;
    box.setFromObject(obj);
    const size = box.getSize(new THREE.Vector3());
    const volume = size.x * size.y * size.z || Number.POSITIVE_INFINITY;
    if (volume < bestVolume) { bestVolume = volume; best = obj; }
  }
  const hit = best ?? hits[0].object;\<close>
  The vehicle group is given by its uuid, \<open>None\<close> while \<open>agvRef.current\<close> is null.
\<close>

definition in_vehicle :: "string option \<Rightarrow> PickHit \<Rightarrow> bool" where
  "in_vehicle agv obj = (case agv of None \<Rightarrow> False | Some a \<Rightarrow> isDescendantOf obj a)"

definition pick_step ::
  "string option \<Rightarrow> PickHit option \<times> real option \<Rightarrow> PickHit \<Rightarrow> PickHit option \<times> real option" where
  "pick_step agv acc obj =
     (if in_vehicle agv obj then acc
      else (let volume = bbox_volume (h_size obj)
            in if volume_less volume (snd acc) then (Some obj, volume) else acc))"

definition pick_best :: "string option \<Rightarrow> PickHit list \<Rightarrow> PickHit option" where
  "pick_best agv hits = fst (foldl (pick_step agv) (None, None) hits)"

text \<open>
  The object \<open>hit\<close> of the handler; with no hits at all the handler returns before
  it chooses (\<^verbatim>\<open>if (!hits.length) { ... return; }\<close>).
\<close>

definition pick_hit :: "string option \<Rightarrow> PickHit list \<Rightarrow> PickHit option" where
  "pick_hit agv hits =
     (case hits of
        [] \<Rightarrow> None
      | first # rest \<Rightarrow> Some (case pick_best agv hits of Some best \<Rightarrow> best | None \<Rightarrow> first))"

text \<open>
  The candidates the loop can choose: the hits outside the vehicle with a bounding
  volume that is not zero.
\<close>

definition candidate :: "string option \<Rightarrow> PickHit \<Rightarrow> bool" where
  "candidate agv obj = (\<not> in_vehicle agv obj \<and> bbox_volume (h_size obj) \<noteq> None)"

text \<open>An example: a wheel of the vehicle (uuid \<open>agv\<close>) under the pointer, alone.\<close>

definition demo_wheel :: PickHit where
  "demo_wheel = \<lparr>h_uuid = ''wheel'', h_ancestors = [''model'', ''agv'', ''scene''], h_size = (1, 1, 1)\<rparr>"

definition demo_small :: PickHit where
  "demo_small = \<lparr>h_uuid = ''cup'', h_ancestors = [''scene''], h_size = (1, 1, 1)\<rparr>"

definition demo_large :: PickHit where
  "demo_large = \<lparr>h_uuid = ''hall'', h_ancestors = [''scene''], h_size = (2, 2, 2)\<rparr>"

text \<open>The invariant of the loop over a set \<open>S\<close> of candidates seen so far.\<close>

definition pick_inv :: "PickHit option \<times> real option \<Rightarrow> PickHit set \<Rightarrow> bool" where
  "pick_inv acc S =
     (case fst acc of
        None \<Rightarrow> snd acc = None \<and> S = {}
      | Some b \<Rightarrow> b \<in> S \<and> snd acc = bbox_volume (h_size b)
                 \<and> (\<forall>h\<in>S. \<not> volume_less (bbox_volume (h_size h)) (bbox_volume (h_size b))))"

section \<open>Camera rig (CameraRig)\<close>

datatype CamMode = ORBIT | FOLLOW | FPV

text \<open>
  \<open>agv.userData.cam\<close>, the hints the vehicle stores for the camera; every field may
  be absent, and the rig reads each one with a default
  (\<^verbatim>\<open>cam.height ?? 2\<close>, \<^verbatim>\<open>cam.depth ?? 3\<close>, \<^verbatim>\<open>cam.centerY ?? 0.6\<close>,
  \<^verbatim>\<open>cam.groundY ?? -0.01\<close>).
\<close>

record CamHints =
  cam_height :: "real option"
  cam_width :: "real option"
  cam_depth :: "real option"
  cam_centerY :: "real option"
  cam_groundY :: "real option"

text \<open>
  The vehicle group as the rig reads it: its position and rotation, the hints, the live
  forward vector \<open>userData.forward\<close>, and the local position (in the frame of the
  vehicle group) of the object named \<open>fpv\<close>, \<open>None\<close> when
  \<^verbatim>\<open>agv.getObjectByName("fpv")\<close> finds none.
\<close>

record RigAgv = AgvGroup +
  userData_cam :: "CamHints option"
  userData_forward :: "Vec3Tuple option"
  fpv_local :: "Vec3Tuple option"

definition hint :: "(CamHints \<Rightarrow> real option) \<Rightarrow> real \<Rightarrow> RigAgv \<Rightarrow> real" where
  "hint field dflt agv =
     (case userData_cam agv of
        None \<Rightarrow> dflt
      | Some cam \<Rightarrow> (case field cam of None \<Rightarrow> dflt | Some v \<Rightarrow> v))"

definition rig_groundY :: "RigAgv \<Rightarrow> real" where
  "rig_groundY agv = hint cam_groundY (-0.01) agv"

text \<open>\<^verbatim>\<open>Vector3.lerp(v, alpha)\<close>: each coordinate moves by \<open>alpha\<close> of the way.\<close>

definition lerp :: "Vec3Tuple \<Rightarrow> Vec3Tuple \<Rightarrow> real \<Rightarrow> Vec3Tuple" where
  "lerp c v alpha =
     (vx c + (vx v - vx c) * alpha, vy c + (vy v - vy c) * alpha, vz c + (vz v - vz c) * alpha)"

text \<open>\<^verbatim>\<open>v.y = Math.max(v.y, groundY + 0.2);\<close>\<close>

definition clamp_above_ground :: "real \<Rightarrow> Vec3Tuple \<Rightarrow> Vec3Tuple" where
  "clamp_above_ground groundY v = (vx v, max (vy v) (groundY + 0.2), vz v)"

text \<open>
  \<^verbatim>\<open>
  const followHeight = Math.max(1.2, height * 0.9);
  const followDistance = Math.max(3, depth * 1.6);
  const liveForward = agv.userData.forward;
  if (liveForward) forward.copy(liveForward);
  else forward.set(0, 0, -1).applyQuaternion(agv.quaternion).normalize();
  v.copy(agv.position).addScaledVector(forward, -followDistance).addScaledVector(up, followHeight);\<close>
\<close>

definition follow_target :: "RigAgv \<Rightarrow> Vec3Tuple" where
  "follow_target agv =
     (let followHeight = max 1.2 (hint cam_height 2 agv * 0.9);
          followDistance = max 3 (hint cam_depth 3 agv * 1.6);
          forward = (case userData_forward agv of
                       Some liveForward \<Rightarrow> liveForward
                     | None \<Rightarrow> applyRotationY (agv_rotation_y agv) (0, 0, -1));
          p = agv_position agv
      in (vx p + vx forward * (- followDistance),
          vy p + vy forward * (- followDistance) + followHeight,
          vz p + vz forward * (- followDistance)))"

text \<open>
  One frame of the rig on the camera position, \<open>dt\<close> seconds after the last one.
  \<^verbatim>\<open>
  const agv = agvRef.current;
  if (!agv) return;
  ...
  if (mode === "FOLLOW") {
    ...
    v.y = Math.max(v.y, groundY + 0.2);
    camera.position.lerp(v, 1 - Math.pow(0.001, dt));
    ...
  }
  if (mode === "FPV") {
    const fpv = agv.getObjectByName("fpv");
    if (fpv) {
      fpv.getWorldPosition(v);
      v.y = Math.max(v.y, groundY + 0.2);
      camera.position.lerp(v, 1 - Math.pow(0.0001, dt));
      ...
    }
  }\<close>
  In the mode \<open>ORBIT\<close> the rig moves the target of the orbit controls and the
  controls own the camera; the rig itself does not write the camera position.
\<close>

definition cameraRig :: "CamMode \<Rightarrow> real \<Rightarrow> RigAgv option \<Rightarrow> Vec3Tuple \<Rightarrow> Vec3Tuple" where
  "cameraRig mode dt rigAgv camera =
     (case rigAgv of
        None \<Rightarrow> camera
      | Some agv \<Rightarrow>
          (case mode of
             ORBIT \<Rightarrow> camera
           | FOLLOW \<Rightarrow>
               lerp camera (clamp_above_ground (rig_groundY agv) (follow_target agv))
                 (1 - 0.001 powr dt)
           | FPV \<Rightarrow>
               (case fpv_local agv of
                  None \<Rightarrow> camera
                | Some f \<Rightarrow>
                    lerp camera
                      (clamp_above_ground (rig_groundY agv)
                         (localToWorld (AgvGroup.truncate agv) f))
                      (1 - 0.0001 powr dt))))"

text \<open>
  An example: an unrotated vehicle at the origin without hints, and the camera twenty
  units below it, where the orbit controls can leave it.
\<close>

definition demo_rig :: RigAgv where
  "demo_rig = \<lparr>agv_position = (0, 0, 0), agv_rotation_y = 0, userData_cam = None,
                userData_forward = None, fpv_local = Some (0, 3/2, 1/2)\<rparr>"

section \<open>Upload route (src/app/api/upload/route.ts)\<close>

text \<open>
  Strings are lists of characters.  The functions of \<open>node:path\<close> are those of a
  POSIX host: the separator is the slash.
\<close>

text \<open>
  \<^verbatim>\<open>path.basename(name)\<close>: trailing slashes are skipped, and the result is what
  stands after the last slash before them; it is empty when there is nothing but
  slashes.
\<close>

definition basename :: "string \<Rightarrow> string" where
  "basename p =
     (let q = dropWhile (\<lambda>c. c = CHR ''/'') (rev p)
      in rev (takeWhile (\<lambda>c. c \<noteq> CHR ''/'') q))"

text \<open>The characters the class \<^verbatim>\<open>[^a-zA-Z0-9._-]\<close> leaves alone.\<close>

definition safe_char :: "char \<Rightarrow> bool" where
  "safe_char c =
     (c \<in> set ''abcdefghijklmnopqrstuvwxyzABCDEFGHIJKLMNOPQRSTUVWXYZ0123456789._-'')"

text \<open>\<^verbatim>\<open>.replace(/[^a-zA-Z0-9._-]/g, "_")\<close>\<close>

definition sanitize :: "string \<Rightarrow> string" where
  "sanitize s = map (\<lambda>c. if safe_char c then c else CHR ''_'') s"

text \<open>
  The text of \<^verbatim>\<open>${stamp}\<close> for the integer \<^verbatim>\<open>Date.now()\<close> returns: its decimal
  digits, after a minus sign for a clock before 1970.
\<close>

definition digit_char :: "nat \<Rightarrow> char" where
  "digit_char n = ''0123456789'' ! (n mod 10)"

fun decimal :: "nat \<Rightarrow> string" where
  "decimal n = (if n < 10 then [digit_char n] else decimal (n div 10) @ [digit_char n])"

declare decimal.simps [simp del]

definition number_text :: "int \<Rightarrow> string" where
  "number_text i = (if i < 0 then CHR ''-'' # decimal (nat (- i)) else decimal (nat i))"

text \<open>
  \<^verbatim>\<open>
  function safeName(name: string) {
    const base = path.basename(name).replace(/[^a-zA-Z0-9._-]/g, "_");
    const stamp = Date.now();
    return `${stamp}-${base}`;
  }\<close>
\<close>

definition safeName :: "int \<Rightarrow> string \<Rightarrow> string" where
  "safeName stamp name = number_text stamp @ ''-'' @ sanitize (basename name)"

text \<open>
  \<^verbatim>\<open>path.join\<close> puts a slash between its arguments that are not empty and normalizes
  the result: empty components and \<open>.\<close> are dropped, \<open>..\<close> removes the component
  before it (or stays, in a relative path that has none to remove).
\<close>

fun split_slash :: "string \<Rightarrow> string list" where
  "split_slash [] = [[]]"
| "split_slash (c # cs) =
     (if c = CHR ''/'' then [] # split_slash cs
      else (case split_slash cs of s # ss \<Rightarrow> (c # s) # ss | [] \<Rightarrow> [[c]]))"

fun join_slash :: "string list \<Rightarrow> string" where
  "join_slash [] = []"
| "join_slash [s] = s"
| "join_slash (s # t # ss) = s @ ''/'' @ join_slash (t # ss)"

definition normalize_step :: "bool \<Rightarrow> string list \<Rightarrow> string \<Rightarrow> string list" where
  "normalize_step allowAboveRoot res seg =
     (if seg = [] \<or> seg = ''.'' then res
      else if seg = ''..'' then
        (if res \<noteq> [] \<and> last res \<noteq> ''..'' then butlast res
         else if allowAboveRoot then res @ [''..''] else res)
      else res @ [seg])"

definition normalizeString :: "string \<Rightarrow> bool \<Rightarrow> string list" where
  "normalizeString path allowAboveRoot = foldl (normalize_step allowAboveRoot) [] (split_slash path)"

definition path_normalize :: "string \<Rightarrow> string" where
  "path_normalize path =
     (if path = [] then ''.''
      else (let isAbsolute = (hd path = CHR ''/'');
                trailingSeparator = (last path = CHR ''/'');
                p = join_slash (normalizeString path (\<not> isAbsolute))
            in if p = [] then (if isAbsolute then ''/'' else if trailingSeparator then ''./'' else ''.'')
               else (if isAbsolute then ''/'' else []) @ p @ (if trailingSeparator then ''/'' else [])))"

definition path_join :: "string list \<Rightarrow> string" where
  "path_join args =
     (let parts = filter (\<lambda>arg. arg \<noteq> []) args
      in if parts = [] then ''.'' else path_normalize (join_slash parts))"

text \<open>
  The handler.  The form field \<open>file\<close> is absent, a string, or a file with its name and
  its bytes; the result is the error response or what was written where, with the JSON
  of the response.
  \<^verbatim>\<open>
  const file = data.get("file");
  if (!file || typeof file === "string") {
    return NextResponse.json({ error: "No file provided" }, { status: 400 });
  }
  const uploadDir = path.join(process.cwd(), "public", "uploads");
  await mkdir(uploadDir, { recursive: true });
  const name = safeName(file.name);
  const buf = Buffer.from(await file.arrayBuffer());
  const filePath = path.join(uploadDir, name);
  await writeFile(filePath, buf);
  return NextResponse.json({ url: `/uploads/${name}`, name });\<close>
\<close>

datatype FormField = NoField | TextField string | FileField string "nat list"

record Upload =
  up_filePath :: string
  up_buf :: "nat list"
  up_url :: string
  up_name :: string

definition uploadDir :: "string \<Rightarrow> string" where
  "uploadDir cwd = path_join [cwd, ''public'', ''uploads'']"

definition POST :: "string \<Rightarrow> int \<Rightarrow> FormField \<Rightarrow> string + Upload" where
  "POST cwd stamp file =
     (case file of
        NoField \<Rightarrow> Inl ''No file provided''
      | TextField t \<Rightarrow> Inl ''No file provided''
      | FileField fname buf \<Rightarrow>
          (let name = safeName stamp fname;
               filePath = path_join [uploadDir cwd, name]
           in Inr \<lparr>up_filePath = filePath, up_buf = buf,
                   up_url = ''/uploads/'' @ name, up_name = name\<rparr>))"

text \<open>A component that normalization keeps as it is.\<close>

definition plain_segment :: "string \<Rightarrow> bool" where
  "plain_segment s = (s \<noteq> [] \<and> s \<noteq> ''.'' \<and> s \<noteq> ''..'' \<and> CHR ''/'' \<notin> set s)"

text \<open>
  The example page a moment after the vehicle has driven on: its group stands 0.1
  units further (a frame of 0.04 s at speed 2.5) while \<open>agvPos\<close> still holds the last
  sample, and the box stands 1.95 units from that sample, 2.05 from the vehicle.
\<close>

definition lag_agv :: AgvGroup where
  "lag_agv = \<lparr>agv_position = (0, 0, -1/10), agv_rotation_y = 0\<rparr>"

definition lag_obj :: Object3D where
  "lag_obj = \<lparr>o_parent = SceneRoot, o_position = (0, 0, 39/20)\<rparr>"

definition lag_page :: page where
  "lag_page =
     demo_page\<lparr>agvRef := Some lag_agv, uploadObjectMapRef := [''box'' \<mapsto> lag_obj],
               uploads := [\<lparr>u_id = ''box'', u_name = ''box.glb'', u_url = ''/uploads/1-box.glb'',
                            u_position = (0, 0, 39/20), u_scale = 1\<rparr>]\<rparr>"

text \<open>The example page with the box three units from the vehicle.\<close>

definition far_obj :: Object3D where
  "far_obj = \<lparr>o_parent = SceneRoot, o_position = (0, 0, 3)\<rparr>"

definition far_page :: page where
  "far_page =
     demo_page\<lparr>uploadObjectMapRef := [''box'' \<mapsto> far_obj],
               uploads := [\<lparr>u_id = ''box'', u_name = ''box.glb'', u_url = ''/uploads/1-box.glb'',
                            u_position = (0, 0, 3), u_scale = 1\<rparr>]\<rparr>"

text \<open>
  A page with the vehicle at x = 10 carrying the box one unit ahead of its origin, so
  that the box stands at x = 11 in the world.
\<close>

definition carried_agv :: AgvGroup where
  "carried_agv = \<lparr>agv_position = (10, 0, 0), agv_rotation_y = 0\<rparr>"

definition carried_obj :: Object3D where
  "carried_obj = \<lparr>o_parent = Vehicle, o_position = (1, 0, 0)\<rparr>"

definition carried_page :: page where
  "carried_page =
     \<lparr>uploads = [\<lparr>u_id = ''box'', u_name = ''box.glb'', u_url = ''/uploads/1-box.glb'',
                  u_position = (1, 0, 0), u_scale = 1\<rparr>],
      draggedUploadId = None, isDragging = False, selectedPos = None,
      carriedIds = [''box''], attachRules = [demo_rule], agvPos = (10, 0, 0),
      uploadHistoryRef = [], pendingUndoRef = None, agvRef = Some carried_agv,
      uploadObjectMapRef = [''box'' \<mapsto> carried_obj]\<rparr>"

text \<open>
  The pointer over the carried box: the hit is a mesh of the box, whose chain reaches
  the group of the upload before the vehicle group; the ray of the pointer-down meets
  the plane of the box at the box, and the ray of the move one unit further along X.
\<close>

definition carried_hits :: "SceneNode list list" where
  "carried_hits = [[OtherNode None (11, 0, 0), OtherNode (Some ''box'') (11, 0, 0), AgvNode]]"

definition carried_down :: PointerEvent where
  "carried_down = \<lparr>button = 0, clientX = 100, clientY = 100,
                    pointerRay = \<lparr>ray_origin = (11, 10, 0), ray_direction = (0, -1, 0)\<rparr>\<rparr>"

definition carried_move :: PointerEvent where
  "carried_move = \<lparr>button = 0, clientX = 110, clientY = 100,
                    pointerRay = \<lparr>ray_origin = (12, 10, 0), ray_direction = (0, -1, 0)\<rparr>\<rparr>"

section \<open>Lemmas\<close>

lemma set_Set_add: "set (Set_add xs x) = insert x (set xs)"
  by (auto simp: Set_add_def)

lemma set_Set_delete: "set (Set_delete xs x) = set xs - {x}"
  by (auto simp: Set_delete_def)

lemma set_foldl_Set_add: "set (foldl Set_add acc xs) = set acc \<union> set xs"
  by (induction xs arbitrary: acc) (auto simp: set_Set_add)

lemma set_new_Set: "set (new_Set xs) = set xs"
  by (simp add: new_Set_def set_foldl_Set_add)

lemma toggle_rule_frame:
  "agvPos (snd (toggle_rule agv acc rule)) = agvPos (snd acc)
   \<and> agvRef (snd (toggle_rule agv acc rule)) = agvRef (snd acc)
   \<and> attachRules (snd (toggle_rule agv acc rule)) = attachRules (snd acc)"
  by (simp add: toggle_rule_def Let_def split: option.splits)

lemma toggle_rule_other:
  assumes "r_id rule \<noteq> i"
  shows "uploadObjectMapRef (snd (toggle_rule agv acc rule)) i = uploadObjectMapRef (snd acc) i
         \<and> (i \<in> set (fst (toggle_rule agv acc rule)) \<longleftrightarrow> i \<in> set (fst acc))"
  using assms
  by (auto simp: toggle_rule_def Let_def set_Set_add set_Set_delete split: option.splits)

lemma foldl_toggle_frame:
  "agvPos (snd (foldl (toggle_rule agv) acc rules)) = agvPos (snd acc)
   \<and> agvRef (snd (foldl (toggle_rule agv) acc rules)) = agvRef (snd acc)
   \<and> attachRules (snd (foldl (toggle_rule agv) acc rules)) = attachRules (snd acc)"
  by (induction rules arbitrary: acc) (simp_all add: toggle_rule_frame)

lemma foldl_toggle_other:
  assumes "i \<notin> r_id ` set rules"
  shows "uploadObjectMapRef (snd (foldl (toggle_rule agv) acc rules)) i = uploadObjectMapRef (snd acc) i
         \<and> (i \<in> set (fst (foldl (toggle_rule agv) acc rules)) \<longleftrightarrow> i \<in> set (fst acc))"
  using assms
proof (induction rules arbitrary: acc)
  case Nil
  then show ?case by simp
next
  case (Cons r rules)
  then have "r_id r \<noteq> i" and "i \<notin> r_id ` set rules" by auto
  then show ?case using Cons.IH [of "toggle_rule agv acc r"] toggle_rule_other [of r i agv acc]
    by simp
qed

lemma toggle_rule_self:
  assumes "uploadObjectMapRef (snd acc) (r_id rule) = Some obj"
  shows "uploadObjectMapRef (snd (toggle_rule agv acc rule)) (r_id rule) =
           Some (if r_id rule \<in> set (fst acc) then scene_attach agv obj
                 else if dist_xz (getWorldPosition agv obj) (agvPos (snd acc)) > pickRadius then obj
                 else position_set (r_offset rule) (agv_add obj))
         \<and> (r_id rule \<in> set (fst (toggle_rule agv acc rule)) \<longleftrightarrow>
              r_id rule \<notin> set (fst acc)
              \<and> dist_xz (getWorldPosition agv obj) (agvPos (snd acc)) \<le> pickRadius)"
  using assms
  by (auto simp: toggle_rule_def Let_def Set_has_def set_Set_add set_Set_delete)

lemma onKeyQ_frame:
  "agvPos (onKeyQ e s) = agvPos s \<and> agvRef (onKeyQ e s) = agvRef s
   \<and> attachRules (onKeyQ e s) = attachRules s"
  by (simp add: onKeyQ_def Let_def foldl_toggle_frame split: option.splits)

lemma onKeyQ_rule:
  assumes agv: "agvRef s = Some agv"
    and dist: "distinct (map r_id (attachRules s))"
    and rule: "rule \<in> set (attachRules s)"
    and obj: "uploadObjectMapRef s (r_id rule) = Some obj"
  shows "uploadObjectMapRef (onKeyQ key_q s) (r_id rule) =
           Some (if r_id rule \<in> set (carriedIds s) then scene_attach agv obj
                 else if dist_xz (getWorldPosition agv obj) (agvPos s) > pickRadius then obj
                 else position_set (r_offset rule) (agv_add obj))
         \<and> (r_id rule \<in> set (carriedIds (onKeyQ key_q s)) \<longleftrightarrow>
              r_id rule \<notin> set (carriedIds s)
              \<and> dist_xz (getWorldPosition agv obj) (agvPos s) \<le> pickRadius)"
proof -
  from rule obtain pre post where split: "attachRules s = pre @ rule # post"
    by (auto simp: in_set_conv_decomp)
  with dist have npre: "r_id rule \<notin> r_id ` set pre" and npost: "r_id rule \<notin> r_id ` set post"
    by auto
  define a0 where "a0 = (new_Set (carriedIds s), s)"
  define a1 where "a1 = foldl (toggle_rule agv) a0 pre"
  define a2 where "a2 = toggle_rule agv a1 rule"
  define a3 where "a3 = foldl (toggle_rule agv) a2 post"
  have r: "foldl (toggle_rule agv) a0 (attachRules s) = a3"
    by (simp add: split a1_def a2_def a3_def)
  have o1: "uploadObjectMapRef (snd a1) (r_id rule) = Some obj"
    and c1: "r_id rule \<in> set (fst a1) \<longleftrightarrow> r_id rule \<in> set (carriedIds s)"
    using foldl_toggle_other [OF npre, of agv a0] obj
    by (simp_all add: a1_def a0_def set_new_Set)
  have p1: "agvPos (snd a1) = agvPos s"
    using foldl_toggle_frame [of agv a0 pre] by (simp add: a1_def a0_def)
  have s2: "uploadObjectMapRef (snd a2) (r_id rule) =
           Some (if r_id rule \<in> set (carriedIds s) then scene_attach agv obj
                 else if dist_xz (getWorldPosition agv obj) (agvPos s) > pickRadius then obj
                 else position_set (r_offset rule) (agv_add obj))"
    and c2: "r_id rule \<in> set (fst a2) \<longleftrightarrow>
              r_id rule \<notin> set (carriedIds s)
              \<and> dist_xz (getWorldPosition agv obj) (agvPos s) \<le> pickRadius"
    using toggle_rule_self [OF o1, of agv] c1 p1 by (simp_all add: a2_def)
  have s3: "uploadObjectMapRef (snd a3) (r_id rule) = uploadObjectMapRef (snd a2) (r_id rule)"
    and c3: "r_id rule \<in> set (fst a3) \<longleftrightarrow> r_id rule \<in> set (fst a2)"
    using foldl_toggle_other [OF npost, of agv a2] by (simp_all add: a3_def)
  have res: "onKeyQ key_q s = (snd a3)\<lparr>carriedIds := fst a3\<rparr>"
    using agv r by (simp add: onKeyQ_def key_q_def a0_def Let_def)
  show ?thesis
    using s2 c2 s3 c3 by (simp add: res)
qed

lemma sqrt_le_2_iff: "sqrt x \<le> 2 \<longleftrightarrow> x \<le> 4"
proof -
  have "sqrt x \<le> sqrt 4 \<longleftrightarrow> x \<le> 4" by (rule real_sqrt_le_iff)
  moreover have "sqrt 4 = (2::real)" using real_sqrt_abs [of 2] by simp
  ultimately show ?thesis by simp
qed

lemma dist_xz_le_pickRadius:
  "dist_xz w a \<le> 2 \<longleftrightarrow> (vx w - vx a) * (vx w - vx a) + (vz w - vz a) * (vz w - vz a) \<le> 4"
  by (simp add: dist_xz_def Let_def sqrt_le_2_iff)

lemma Object3D_make: "(obj::Object3D)\<lparr>o_parent := p, o_position := q\<rparr> = \<lparr>o_parent = p, o_position = q\<rparr>"
  by (cases obj) simp

lemma sqrt_gt_2_iff: "2 < sqrt x \<longleftrightarrow> 4 < x"
  using sqrt_le_2_iff [of x] by linarith

lemma dist_xz_gt_pickRadius:
  "2 < dist_xz w a \<longleftrightarrow> 4 < (vx w - vx a) * (vx w - vx a) + (vz w - vz a) * (vz w - vz a)"
  by (simp add: dist_xz_def Let_def sqrt_gt_2_iff)

lemma set_Map_set: "r_id ` set (Map_set m r) = insert (r_id r) (r_id ` set m)"
  by (auto simp: Map_set_def image_iff)

lemma map_r_id_replace:
  "map r_id (map (\<lambda>q. if r_id q = r_id r then r else q) m) = map r_id m"
  by (induction m) auto

lemma distinct_Map_set:
  "distinct (map r_id m) \<Longrightarrow> distinct (map r_id (Map_set m r))"
  unfolding Map_set_def using map_r_id_replace [of r m] by (auto simp del: map_map)

lemma distinct_foldl_Map_set:
  "distinct (map r_id m) \<Longrightarrow> distinct (map r_id (foldl Map_set m rs))"
  by (induction rs arbitrary: m) (simp_all add: distinct_Map_set)

lemma addRule_distinct:
  "distinct (map r_id (attachRules s)) \<Longrightarrow> distinct (map r_id (attachRules (addRule agv sel s)))"
  by (simp add: addRule_def Let_def distinct_foldl_Map_set)

lemma copy_upload_same: "copy_upload u = u"
  by (simp add: copy_upload_def vx_def vy_def vz_def)

lemma copy_upload_id: "map copy_upload us = us"
  by (simp add: copy_upload_same map_idI)

lemma walk_up_truthy: "walk_up h = Some (i, wp) \<Longrightarrow> i \<noteq> []"
  by (induction h rule: walk_up.induct) (auto split: if_splits)

lemma find_grab_truthy: "find_grab hits = Some (i, wp) \<Longrightarrow> i \<noteq> []"
  by (induction hits) (auto split: option.splits dest: walk_up_truthy)

lemma deliver_Move_frame:
  "pendingUndoRef (deliver (Some (Move p)) s) = pendingUndoRef s
   \<and> uploadHistoryRef (deliver (Some (Move p)) s) = uploadHistoryRef s
   \<and> draggedUploadId (deliver (Some (Move p)) s) = draggedUploadId s
   \<and> agvPos (deliver (Some (Move p)) s) = agvPos s"
  by (simp add: deliver_def onMove_def split: option.splits)

lemma choose_mode_frame:
  "draggingRef (choose_mode e d) = draggingRef d
   \<and> dragYRef (choose_mode e d) = dragYRef d
   \<and> dragOffsetRef (choose_mode e d) = dragOffsetRef d
   \<and> arrowDownRef (choose_mode e d) = arrowDownRef d
   \<and> dragPosRef (choose_mode e d) = dragPosRef d
   \<and> lastPointerRef (choose_mode e d) = lastPointerRef d"
  by (simp add: choose_mode_def Let_def)

lemma choose_mode_set: "dragModeRef d = Some m \<Longrightarrow> choose_mode e d = d"
  by (simp add: choose_mode_def)

lemma vertical_move_frame:
  "draggingRef (fst (vertical_move g e d)) = draggingRef d
   \<and> dragYRef (fst (vertical_move g e d)) = dragYRef d
   \<and> dragOffsetRef (fst (vertical_move g e d)) = dragOffsetRef d
   \<and> dragModeRef (fst (vertical_move g e d)) = dragModeRef d
   \<and> arrowDownRef (fst (vertical_move g e d)) = arrowDownRef d
   \<and> (\<exists>p. snd (vertical_move g e d) = Some (Move p))"
  by (simp add: vertical_move_def Let_def)

lemma horizontal_move_frame:
  "draggingRef (fst (horizontal_move g e d)) = draggingRef d
   \<and> dragYRef (fst (horizontal_move g e d)) = dragYRef d
   \<and> dragOffsetRef (fst (horizontal_move g e d)) = dragOffsetRef d
   \<and> dragModeRef (fst (horizontal_move g e d)) = dragModeRef d
   \<and> arrowDownRef (fst (horizontal_move g e d)) = arrowDownRef d
   \<and> (snd (horizontal_move g e d) = None \<or> (\<exists>p. snd (horizontal_move g e d) = Some (Move p)))"
  by (simp add: horizontal_move_def Let_def split: option.splits)

lemma onPointerMove_frame:
  "draggingRef (fst (onPointerMove g e d)) = draggingRef d
   \<and> dragYRef (fst (onPointerMove g e d)) = dragYRef d
   \<and> dragOffsetRef (fst (onPointerMove g e d)) = dragOffsetRef d
   \<and> arrowDownRef (fst (onPointerMove g e d)) = arrowDownRef d
   \<and> (snd (onPointerMove g e d) = None \<or> (\<exists>p. snd (onPointerMove g e d) = Some (Move p)))"
  using vertical_move_frame [of g e "choose_mode e d"]
    horizontal_move_frame [of g e "choose_mode e d"] choose_mode_frame [of e d]
  by (simp add: onPointerMove_def Let_def)

lemma onPointerMove_mode:
  "dragModeRef d = Some m \<Longrightarrow> dragModeRef (fst (onPointerMove g e d)) = Some m"
  using vertical_move_frame [of g e d] horizontal_move_frame [of g e d]
  by (simp add: onPointerMove_def Let_def choose_mode_set)

lemma session_frame_refl: "session_frame st st"
  by (simp add: session_frame_def split: option.splits)

lemma session_frame_trans:
  "session_frame a b \<Longrightarrow> session_frame b c \<Longrightarrow> session_frame a c"
  by (auto simp: session_frame_def split: option.splits)

lemma drag_step_session:
  assumes "within_session ev"
  shows "session_frame st (drag_step st ev)"
proof (cases st)
  case (Pair d s)
  show ?thesis
  proof (cases ev)
    case (KeyDown e)
    then show ?thesis by (simp add: Pair session_frame_def onKeyDown_def split: option.splits)
  next
    case (KeyUp e)
    then show ?thesis by (simp add: Pair session_frame_def onKeyUp_def split: option.splits)
  next
    case (PointerMove e)
    define r where "r = onPointerMove (vy (agvPos s)) e d"
    have f: "draggingRef (fst r) = draggingRef d" "dragYRef (fst r) = dragYRef d"
      "dragOffsetRef (fst r) = dragOffsetRef d"
      and c: "snd r = None \<or> (\<exists>p. snd r = Some (Move p))"
      using onPointerMove_frame [of "vy (agvPos s)" e d] by (simp_all add: r_def)
    have m: "dragModeRef (fst r) = Some m" if "dragModeRef d = Some m" for m
      using onPointerMove_mode [OF that] by (simp add: r_def)
    have p: "pendingUndoRef (deliver (snd r) s) = pendingUndoRef s
        \<and> uploadHistoryRef (deliver (snd r) s) = uploadHistoryRef s
        \<and> draggedUploadId (deliver (snd r) s) = draggedUploadId s"
      using c deliver_Move_frame by (auto simp: deliver_def)
    show ?thesis
      using f m p by (simp add: Pair PointerMove session_frame_def r_def [symmetric] Let_def
          split: option.splits)
  qed (use assms in simp_all)
qed

lemma drag_run_session:
  "list_all within_session evs \<Longrightarrow> session_frame st (drag_run st evs)"
proof (induction evs arbitrary: st)
  case Nil
  then show ?case by (simp add: drag_run_def session_frame_refl)
next
  case (Cons ev evs)
  then have "session_frame st (drag_step st ev)"
    and "session_frame (drag_step st ev) (drag_run (drag_step st ev) evs)"
    by (simp_all add: drag_step_session)
  then show ?case
    using session_frame_trans [of st "drag_step st ev"] by (simp add: drag_run_def)
qed

lemma drag_run_append: "drag_run st (xs @ ys) = drag_run (drag_run st xs) ys"
  by (simp add: drag_run_def)

lemma drag_run_Cons: "drag_run st (x # xs) = drag_run (drag_step st x) xs"
  by (simp add: drag_run_def)

text \<open>The state right after a pointer-down that grabs.\<close>

lemma grab_state:
  assumes "button e0 = 0" and "find_grab hits = Some (i, wp)"
  shows "draggingRef (fst (drag_step (d, s) (PointerDown e0 hits)))
       \<and> dragYRef (fst (drag_step (d, s) (PointerDown e0 hits))) = Some (vy wp)
       \<and> dragOffsetRef (fst (drag_step (d, s) (PointerDown e0 hits))) = Some (grab_offset e0 wp)
       \<and> dragModeRef (fst (drag_step (d, s) (PointerDown e0 hits))) = None
       \<and> dragPosRef (fst (drag_step (d, s) (PointerDown e0 hits))) = Some wp
       \<and> lastPointerRef (fst (drag_step (d, s) (PointerDown e0 hits))) = Some (clientX e0, clientY e0)
       \<and> arrowDownRef (fst (drag_step (d, s) (PointerDown e0 hits))) = arrowDownRef d
       \<and> pendingUndoRef (snd (drag_step (d, s) (PointerDown e0 hits))) = Some (uploads s)
       \<and> uploadHistoryRef (snd (drag_step (d, s) (PointerDown e0 hits))) = uploadHistoryRef s
       \<and> uploads (snd (drag_step (d, s) (PointerDown e0 hits))) = uploads s
       \<and> draggedUploadId (snd (drag_step (d, s) (PointerDown e0 hits))) = Some i"
proof -
  have t: "truthy (Some i)"
    using find_grab_truthy [OF assms(2)] by (simp add: truthy_def)
  have r: "onPointerDown e0 hits d =
       (d\<lparr>dragYRef := Some (vy wp), dragPosRef := Some (vx wp, vy wp, vz wp),
          lastPointerRef := Some (clientX e0, clientY e0), dragModeRef := None,
          dragOffsetRef := Some (grab_offset e0 wp), draggingRef := True\<rparr>,
        Some (Pick (Some i)))"
    using assms by (simp add: onPointerDown_def)
  have p: "pendingUndoRef (onPick (Some i) s) = Some (uploads s)
      \<and> uploadHistoryRef (onPick (Some i) s) = uploadHistoryRef s
      \<and> uploads (onPick (Some i) s) = uploads s
      \<and> draggedUploadId (onPick (Some i) s) = Some i"
    using t by (simp add: onPick_def Let_def copy_upload_id split: option.splits)
  show ?thesis
    using p by (simp add: r deliver_def vx_def vy_def vz_def)
qed

lemma cycle_effect:
  assumes "idle st" and "drag_cycle c"
  shows "uploadHistoryRef (snd (drag_run st (PointerDown (c_down c) (c_hits c) # c_session c)))
           = uploadHistoryRef (snd st)
       \<and> uploadHistoryRef (snd (drag_run st (cycle_events c)))
           = array_push (uploadHistoryRef (snd st)) (uploads (snd st))
       \<and> idle (drag_run st (cycle_events c))"
proof -
  obtain d s where st: "st = (d, s)" by (cases st)
  from assms(2) obtain i wp where b: "button (c_down c) = 0"
    and g: "find_grab (c_hits c) = Some (i, wp)"
    and ses: "list_all within_session (c_session c)" and dr: "is_drop (c_drop c)"
    by (auto simp: drag_cycle_def)
  define st1 where "st1 = drag_step (d, s) (PointerDown (c_down c) (c_hits c))"
  define st2 where "st2 = drag_run st1 (c_session c)"
  have g1: "draggingRef (fst st1)" "pendingUndoRef (snd st1) = Some (uploads s)"
    "uploadHistoryRef (snd st1) = uploadHistoryRef s"
    using grab_state [OF b g, of d s] by (simp_all add: st1_def)
  have "session_frame st1 st2"
    using drag_run_session [OF ses] by (simp add: st2_def)
  with g1 have g2: "draggingRef (fst st2)" "pendingUndoRef (snd st2) = Some (uploads s)"
    "uploadHistoryRef (snd st2) = uploadHistoryRef s"
    by (simp_all add: session_frame_def)
  have drop: "drag_step st2 (c_drop c) = (fst (onPointerUp (fst st2)), onDrop (snd st2))"
    using dr g2(1) by (cases "c_drop c"; cases st2) (simp_all add: onPointerUp_def deliver_def)
  have g3: "uploadHistoryRef (snd (drag_step st2 (c_drop c))) = array_push (uploadHistoryRef s) (uploads s)"
    "pendingUndoRef (snd (drag_step st2 (c_drop c))) = None"
    "\<not> draggingRef (fst (drag_step st2 (c_drop c)))"
    using g2 by (simp_all add: drop onDrop_def onPointerUp_def Let_def)
  have run: "drag_run st (PointerDown (c_down c) (c_hits c) # c_session c) = st2"
    "drag_run st (cycle_events c) = drag_step st2 (c_drop c)"
    by (simp_all add: cycle_events_def drag_run_def st st1_def st2_def)
  show ?thesis
    unfolding run using g2 g3 by (simp add: idle_def st)
qed

lemma run_cycles_snoc: "run_cycles st (cs @ [c]) = drag_run (run_cycles st cs) (cycle_events c)"
  by (simp add: run_cycles_def)

lemma run_cycles_count:
  "idle st \<Longrightarrow> list_all drag_cycle cs \<Longrightarrow>
     idle (run_cycles st cs)
     \<and> length (uploadHistoryRef (snd (run_cycles st cs))) = length (uploadHistoryRef (snd st)) + length cs"
proof (induction cs rule: rev_induct)
  case Nil
  then show ?case by (simp add: run_cycles_def)
next
  case (snoc c cs)
  then have ih: "idle (run_cycles st cs)"
    "length (uploadHistoryRef (snd (run_cycles st cs))) = length (uploadHistoryRef (snd st)) + length cs"
    and c: "drag_cycle c"
    by simp_all
  show ?case
    using cycle_effect [OF ih(1) c] ih(2) by (simp add: run_cycles_snoc array_push_def)
qed

lemma undo_after_push:
  "uploadHistoryRef s' = array_push h snap \<Longrightarrow>
     uploads (onUndo ctrl_z s') = snap \<and> uploadHistoryRef (onUndo ctrl_z s') = h"
  by (simp add: onUndo_def ctrl_z_def array_pop_def array_push_def)

lemma miss_state:
  assumes "idle st" and "button (e::PointerEvent) = 0" and "find_grab hits = None"
  shows "uploadHistoryRef (snd (drag_run st [PointerDown e hits, PointerUp])) = uploadHistoryRef (snd st)"
proof -
  obtain d s where st: "st = (d, s)" by (cases st)
  have "onPointerDown e hits d = (d, Some (Pick None))"
    using assms(2,3) by (simp add: onPointerDown_def)
  moreover have "snd (onPointerUp d) = None"
    using assms(1) by (simp add: onPointerUp_def idle_def st)
  ultimately show ?thesis
    by (simp add: drag_run_def st deliver_def onPick_def truthy_def Let_def)
qed

lemma demo_cycle_ok: "drag_cycle demo_cycle"
  by (simp add: drag_cycle_def demo_cycle_def demo_down_def demo_hits_def)

lemma demo_click_ok: "drag_cycle demo_click"
  by (simp add: drag_cycle_def demo_click_def demo_down_def demo_hits_def)

lemma demo_idle: "idle (DragMove_init, demo_page)"
  by (simp add: idle_def DragMove_init_def demo_page_def)

lemma intersect_down: "intersectPlane \<lparr>ray_origin = (a, 10, c), ray_direction = (0, -1, 0)\<rparr> 0 = Some (a, 0, c)"
  by (simp add: intersectPlane_def distanceToPlane_def ray_at_def Let_def vx_def vy_def vz_def)

lemma demo_grab: "find_grab demo_hits = Some (''box'', (1/2, 0, 0))"
  by (simp add: demo_hits_def)

lemma demo_after_down:
  "drag_step (DragMove_init, demo_page) (PointerDown demo_down demo_hits)
     = (\<lparr>draggingRef = True, dragYRef = Some 0, dragPosRef = Some (1/2, 0, 0),
          lastPointerRef = Some (100, 100), arrowDownRef = False, dragModeRef = None,
          dragOffsetRef = Some (1/2, 0, 0)\<rparr>,
        demo_page\<lparr>draggedUploadId := Some ''box'', isDragging := True,
                   pendingUndoRef := Some (uploads demo_page),
                   selectedPos := Some (1/2, 0, 0)\<rparr>)"
  by (simp add: onPointerDown_def demo_grab demo_down_def DragMove_init_def grab_offset_def
      intersect_down deliver_def onPick_def truthy_def Let_def copy_upload_same demo_page_def
      vx_def vy_def vz_def)

lemma demo_after_right:
  "drag_run (DragMove_init, demo_page) [PointerDown demo_down demo_hits, PointerMove demo_right]
     = (\<lparr>draggingRef = True, dragYRef = Some 0, dragPosRef = Some (7/2, 0, 4),
          lastPointerRef = Some (110, 100), arrowDownRef = False, dragModeRef = Some ModeXZ,
          dragOffsetRef = Some (1/2, 0, 0)\<rparr>,
        demo_page\<lparr>draggedUploadId := Some ''box'', isDragging := True,
                   pendingUndoRef := Some (uploads demo_page),
                   uploads := set_upload_position ''box'' (7/2, 0, 4) (uploads demo_page),
                   selectedPos := Some (7/2, 0, 4),
                   uploadObjectMapRef :=
                     [''box'' \<mapsto> \<lparr>o_parent = SceneRoot, o_position = (7/2, 0, 4)\<rparr>]\<rparr>)"
  unfolding drag_run_def foldl.simps demo_after_down
  by (simp add: onPointerMove_def choose_mode_def lastPointer_def currentPos_def
      horizontal_move_def demo_right_def intersect_down deliver_def onMove_def Let_def
      vx_def vy_def vz_def demo_page_def UploadedGLB_position_def position_set_def demo_obj_def)

lemma volume_less_trans:
  "volume_less a b \<Longrightarrow> \<not> volume_less c b \<Longrightarrow> \<not> volume_less c a"
  by (cases a; cases b; cases c) auto

lemma volume_less_irrefl: "\<not> volume_less a a"
  by (cases a) auto

lemma pick_step_inv:
  assumes "pick_inv acc S" and "\<forall>h\<in>S. bbox_volume (h_size h) \<noteq> None"
  shows "pick_inv (pick_step agv acc obj) (if candidate agv obj then insert obj S else S)"
proof (cases "in_vehicle agv obj")
  case True
  then show ?thesis using assms(1) by (simp add: pick_step_def candidate_def)
next
  case False
  show ?thesis
  proof (cases "bbox_volume (h_size obj)")
    case None
    then show ?thesis
      using assms(1) False by (simp add: pick_step_def candidate_def Let_def)
  next
    case (Some v)
    show ?thesis
    proof (cases "fst acc")
      case None
      then have "snd acc = None" "S = {}" using assms(1) by (simp_all add: pick_inv_def)
      then show ?thesis
        using False Some by (simp add: pick_step_def candidate_def Let_def pick_inv_def)
    next
      case (Some b)
      then have b: "b \<in> S" "snd acc = bbox_volume (h_size b)"
        "\<forall>h\<in>S. \<not> volume_less (bbox_volume (h_size h)) (bbox_volume (h_size b))"
        using assms(1) by (simp_all add: pick_inv_def)
      show ?thesis
      proof (cases "volume_less (bbox_volume (h_size obj)) (bbox_volume (h_size b))")
        case True
        have "\<forall>h\<in>S. \<not> volume_less (bbox_volume (h_size h)) (bbox_volume (h_size obj))"
          using b(3) volume_less_trans [OF True] by blast
        then show ?thesis
          using False \<open>bbox_volume (h_size obj) = Some v\<close> True b(2)
          by (simp add: pick_step_def candidate_def Let_def pick_inv_def volume_less_irrefl)
      next
        case nl: False
        then show ?thesis
          using False \<open>bbox_volume (h_size obj) = Some v\<close> b Some
          by (simp add: pick_step_def candidate_def Let_def pick_inv_def)
      qed
    qed
  qed
qed

lemma pick_fold_inv:
  assumes "pick_inv acc S" and "\<forall>h\<in>S. bbox_volume (h_size h) \<noteq> None"
  shows "pick_inv (foldl (pick_step agv) acc hits) (S \<union> {h \<in> set hits. candidate agv h})"
  using assms
proof (induction hits arbitrary: acc S)
  case Nil
  then show ?case by simp
next
  case (Cons obj hits)
  define S' where "S' = (if candidate agv obj then insert obj S else S)"
  have 1: "pick_inv (pick_step agv acc obj) S'"
    using pick_step_inv [OF Cons.prems] by (simp add: S'_def)
  have 2: "\<forall>h\<in>S'. bbox_volume (h_size h) \<noteq> None"
    using Cons.prems(2) by (auto simp: S'_def candidate_def)
  have 3: "S' \<union> {h \<in> set hits. candidate agv h} = S \<union> {h \<in> set (obj # hits). candidate agv h}"
    by (auto simp: S'_def)
  show ?case
    using Cons.IH [OF 1 2] by (simp add: 3)
qed

lemma pick_best_inv: "pick_inv (foldl (pick_step agv) (None, None) hits) {h \<in> set hits. candidate agv h}"
  using pick_fold_inv [of "(None, None)" "{}" agv hits] by (simp add: pick_inv_def)

lemma pick_hit_candidates:
  assumes "\<exists>h\<in>set hits. candidate agv h"
  shows "\<exists>b. pick_hit agv hits = Some b \<and> b \<in> set hits \<and> candidate agv b
           \<and> (\<forall>h\<in>set hits. candidate agv h \<longrightarrow>
                 \<not> volume_less (bbox_volume (h_size h)) (bbox_volume (h_size b)))"
proof -
  define acc where "acc = foldl (pick_step agv) (None, None) hits"
  have inv: "pick_inv acc {h \<in> set hits. candidate agv h}"
    using pick_best_inv by (simp add: acc_def)
  from assms have ne: "{h \<in> set hits. candidate agv h} \<noteq> {}" by blast
  with inv obtain b where b: "fst acc = Some b"
    by (cases "fst acc") (auto simp: pick_inv_def)
  with inv have props: "b \<in> set hits" "candidate agv b"
    "\<forall>h\<in>set hits. candidate agv h \<longrightarrow>
        \<not> volume_less (bbox_volume (h_size h)) (bbox_volume (h_size b))"
    by (auto simp: pick_inv_def)
  from assms obtain first rest where hits: "hits = first # rest"
    by (cases hits) auto
  have "pick_best agv hits = Some b"
    using b by (simp add: pick_best_def acc_def)
  then have "pick_hit agv hits = Some b"
    by (cases hits) (simp_all add: pick_hit_def hits)
  with props show ?thesis by blast
qed

lemma pick_hit_fallback:
  assumes "hits \<noteq> []" and "\<not> (\<exists>h\<in>set hits. candidate agv h)"
  shows "pick_hit agv hits = Some (hd hits)"
proof -
  define acc where "acc = foldl (pick_step agv) (None, None) hits"
  have inv: "pick_inv acc {h \<in> set hits. candidate agv h}"
    using pick_best_inv by (simp add: acc_def)
  from assms(2) have "{h \<in> set hits. candidate agv h} = {}" by blast
  with inv have "fst acc = None"
    by (cases "fst acc") (auto simp: pick_inv_def)
  then have "pick_best agv hits = None"
    by (simp add: pick_best_def acc_def)
  with assms(1) show ?thesis
    by (cases hits) (simp_all add: pick_hit_def)
qed

lemma pick_hit_two:
  assumes "candidate agv h1" and "candidate agv h2"
    and "volume_less (bbox_volume (h_size h1)) (bbox_volume (h_size h2))"
  shows "pick_hit agv [h1, h2] = Some h1 \<and> pick_hit agv [h2, h1] = Some h1"
proof -
  from assms obtain v1 v2 where v: "bbox_volume (h_size h1) = Some v1"
    "bbox_volume (h_size h2) = Some v2" "v1 < v2"
    by (cases "bbox_volume (h_size h1)"; cases "bbox_volume (h_size h2)") (auto simp: candidate_def)
  from assms(1,2) have nv: "\<not> in_vehicle agv h1" "\<not> in_vehicle agv h2"
    by (simp_all add: candidate_def)
  show ?thesis
    using v nv by (simp add: pick_hit_def pick_best_def pick_step_def Let_def)
qed

lemma powr_third: "(1/1000::real) powr (1/3) = 1/10"
proof -
  have cube: "(1/10::real) powr 3 = 1/1000" by (simp add: power3_eq_cube)
  have "(1/1000::real) powr (1/3) = ((1/10) powr 3) powr (1/3)" by (simp only: cube)
  also have "\<dots> = (1/10) powr (3 * (1/3))" by (rule powr_powr)
  also have "\<dots> = 1/10" by simp
  finally show ?thesis .
qed

lemma lerp_factor_range:
  assumes "0 < k" and "k \<le> 1" and "0 \<le> dt"
  shows "0 \<le> 1 - k powr dt \<and> 1 - k powr dt \<le> (1::real)"
proof -
  have "k powr dt \<le> 1"
    using assms by (simp add: powr_le1)
  moreover have "0 \<le> k powr dt" by simp
  ultimately show ?thesis by simp
qed

lemma lerp_above:
  assumes "0 \<le> a" and "a \<le> 1" and "l \<le> vy c" and "l \<le> vy v"
  shows "l \<le> vy (lerp c v a)"
proof -
  have "vy (lerp c v a) = (1 - a) * vy c + a * vy v"
    by (simp add: lerp_def vy_def algebra_simps)
  moreover have "(1 - a) * l \<le> (1 - a) * vy c" using assms by (simp add: mult_left_mono)
  moreover have "a * l \<le> a * vy v" using assms by (simp add: mult_left_mono)
  moreover have "(1 - a) * l + a * l = l" by (simp add: algebra_simps)
  ultimately show ?thesis by linarith
qed

lemma clamp_above: "g + 0.2 \<le> vy (clamp_above_ground g v)"
  by (simp add: clamp_above_ground_def vy_def)

lemma split_slash_nonempty: "split_slash p \<noteq> []"
  by (induction p) (auto split: list.splits)

lemma split_slash_append:
  "split_slash (a @ CHR ''/'' # b) = split_slash a @ split_slash b"
proof (induction a)
  case Nil
  then show ?case by simp
next
  case (Cons c a)
  then show ?case
    using split_slash_nonempty [of a] by (cases "split_slash a") auto
qed

lemma split_slash_plain: "CHR ''/'' \<notin> set s \<Longrightarrow> split_slash s = [s]"
  by (induction s) auto

lemma join_slash_snoc: "segs \<noteq> [] \<Longrightarrow> join_slash (segs @ [s]) = join_slash segs @ CHR ''/'' # s"
  by (induction segs rule: join_slash.induct) auto

lemma split_join_slash:
  "segs \<noteq> [] \<Longrightarrow> \<forall>s\<in>set segs. CHR ''/'' \<notin> set s \<Longrightarrow> split_slash (join_slash segs) = segs"
proof (induction segs rule: join_slash.induct)
  case 1
  then show ?case by simp
next
  case (2 s)
  then show ?case by (simp add: split_slash_plain)
next
  case (3 s t ss)
  then have "split_slash (join_slash (t # ss)) = t # ss" by simp
  moreover have "split_slash s = [s]" using 3 by (simp add: split_slash_plain)
  ultimately show ?case
    using split_slash_append [of s "join_slash (t # ss)"] by simp
qed

lemma split_slash_free: "\<forall>s\<in>set (split_slash p). CHR ''/'' \<notin> set s"
  by (induction p) (auto split: list.splits)

lemma join_slash_nonempty: "segs \<noteq> [] \<Longrightarrow> \<forall>s\<in>set segs. s \<noteq> [] \<Longrightarrow> join_slash segs \<noteq> []"
  by (induction segs rule: join_slash.induct) auto

lemma normalize_step_plain:
  assumes "\<forall>s\<in>set res. plain_segment s" and "CHR ''/'' \<notin> set seg"
  shows "\<forall>s\<in>set (normalize_step False res seg). plain_segment s"
  using assms by (auto simp: normalize_step_def plain_segment_def dest: in_set_butlastD)

lemma normalize_fold_plain:
  assumes "\<forall>s\<in>set res. plain_segment s" and "\<forall>s\<in>set segs. CHR ''/'' \<notin> set s"
  shows "\<forall>s\<in>set (foldl (normalize_step False) res segs). plain_segment s"
  using assms
proof (induction segs arbitrary: res)
  case Nil
  then show ?case by simp
next
  case (Cons seg segs)
  from Cons.prems have seg: "CHR ''/'' \<notin> set seg" and rest: "\<forall>s\<in>set segs. CHR ''/'' \<notin> set s"
    by simp_all
  have "\<forall>s\<in>set (normalize_step False res seg). plain_segment s"
    using normalize_step_plain [OF Cons.prems(1) seg] .
  from Cons.IH [OF this rest] show ?case by simp
qed

lemma normalize_fold_keep:
  "\<forall>s\<in>set segs. plain_segment s \<Longrightarrow> foldl (normalize_step a) res segs = res @ segs"
  by (induction segs arbitrary: res) (auto simp: normalize_step_def plain_segment_def)

lemma digit_char_digit: "digit_char n \<in> set ''0123456789''"
proof -
  have "n mod 10 < length ''0123456789''" by simp
  then show ?thesis unfolding digit_char_def by (rule nth_mem)
qed

lemma safe_dash: "safe_char (CHR ''-'')"
  by (simp add: safe_char_def)

lemma safe_underscore: "safe_char (CHR ''_'')"
  by (simp add: safe_char_def)

lemma unsafe_slash: "\<not> safe_char (CHR ''/'')"
  by (simp add: safe_char_def)

lemma digit_safe: "c \<in> set ''0123456789'' \<Longrightarrow> safe_char c"
  unfolding safe_char_def by auto

lemma decimal_safe: "\<forall>c\<in>set (decimal n). safe_char c"
proof (induction n rule: decimal.induct)
  case (1 n)
  note d = digit_safe [OF digit_char_digit [of n]]
  show ?case
  proof (cases "n < 10")
    case True
    then show ?thesis
      using d by (simp add: decimal.simps [of n])
  next
    case False
    then show ?thesis
      using 1 d by (simp add: decimal.simps [of n])
  qed
qed

lemma number_text_safe: "\<forall>c\<in>set (number_text i). safe_char c"
proof (cases "i < 0")
  case True
  then show ?thesis
    using decimal_safe [of "nat (- i)"] safe_dash by (simp add: number_text_def)
next
  case False
  then show ?thesis
    using decimal_safe [of "nat i"] by (simp add: number_text_def)
qed

lemma sanitize_safe: "\<forall>c\<in>set (sanitize s). safe_char c"
  using safe_underscore by (auto simp: sanitize_def)

lemma safeName_safe: "\<forall>c\<in>set (safeName stamp name). safe_char c"
  using number_text_safe [of stamp] sanitize_safe [of "basename name"] safe_dash
  by (auto simp: safeName_def)

lemma safeName_plain: "plain_segment (safeName stamp name)"
proof -
  have dash: "CHR ''-'' \<in> set (safeName stamp name)"
    by (simp add: safeName_def)
  from unsafe_slash safeName_safe [of stamp name] have "CHR ''/'' \<notin> set (safeName stamp name)" by blast
  moreover from dash have "safeName stamp name \<noteq> []" by auto
  moreover from dash have "safeName stamp name \<noteq> ''.''" by auto
  moreover from dash have "safeName stamp name \<noteq> ''..''" by auto
  ultimately show ?thesis by (simp add: plain_segment_def)
qed

lemma plain_public: "plain_segment ''public'' \<and> plain_segment ''uploads''"
  by (simp add: plain_segment_def)

lemma normalize_absolute:
  assumes "segs \<noteq> []" and "\<forall>s\<in>set segs. plain_segment s"
    and "normalizeString (CHR ''/'' # p) False = segs" and "last (CHR ''/'' # p) \<noteq> CHR ''/''"
  shows "path_normalize (CHR ''/'' # p) = CHR ''/'' # join_slash segs"
proof -
  have "join_slash segs \<noteq> []"
    using join_slash_nonempty [OF assms(1)] assms(2) by (auto simp: plain_segment_def)
  then show ?thesis
    using assms(3,4) by (simp add: path_normalize_def Let_def)
qed

lemma uploadDir_shape:
  assumes "cwd = CHR ''/'' # rest"
  shows "\<exists>segs. segs \<noteq> [] \<and> (\<forall>s\<in>set segs. plain_segment s)
           \<and> uploadDir cwd = CHR ''/'' # join_slash segs"
proof -
  define N0 where "N0 = foldl (normalize_step False) [] (split_slash cwd)"
  define N where "N = N0 @ [''public'', ''uploads'']"
  define J where "J = rest @ CHR ''/'' # ''public'' @ CHR ''/'' # ''uploads''"
  have plain0: "\<forall>s\<in>set N0. plain_segment s"
    using normalize_fold_plain [of "[]" "split_slash cwd"] split_slash_free [of cwd]
    by (simp add: N0_def)
  then have plain: "\<forall>s\<in>set N. plain_segment s"
    using plain_public by (auto simp: N_def)
  have ne: "N \<noteq> []" by (simp add: N_def)
  have joined: "join_slash [cwd, ''public'', ''uploads''] = CHR ''/'' # J"
    by (simp add: assms J_def)
  have "split_slash (CHR ''/'' # J) = split_slash cwd @ [''public'', ''uploads'']"
  proof -
    have "CHR ''/'' # J = cwd @ CHR ''/'' # (''public'' @ CHR ''/'' # ''uploads'')"
      by (simp add: assms J_def)
    then have "split_slash (CHR ''/'' # J)
        = split_slash cwd @ split_slash (''public'' @ CHR ''/'' # ''uploads'')"
      by (simp only: split_slash_append)
    also have "split_slash (''public'' @ CHR ''/'' # ''uploads'') = [''public'', ''uploads'']"
      by (simp only: split_slash_append) (simp add: split_slash_plain)
    finally show ?thesis .
  qed
  then have ns: "normalizeString (CHR ''/'' # J) False = N"
    using normalize_fold_keep [of "[''public'', ''uploads'']" False N0] plain_public
    by (simp add: normalizeString_def N_def N0_def)
  have lastJ: "last (CHR ''/'' # J) \<noteq> CHR ''/''"
    by (simp add: J_def)
  have "uploadDir cwd = path_normalize (CHR ''/'' # J)"
    using joined by (simp add: uploadDir_def path_join_def assms)
  then have "uploadDir cwd = CHR ''/'' # join_slash N"
    using normalize_absolute [OF ne plain ns lastJ] by simp
  with ne plain show ?thesis by blast
qed

lemma join_under_uploadDir:
  assumes "cwd = CHR ''/'' # rest" and "plain_segment n"
  shows "path_join [uploadDir cwd, n] = uploadDir cwd @ CHR ''/'' # n"
proof -
  from uploadDir_shape [OF assms(1)] obtain N where ne: "N \<noteq> []"
    and plain: "\<forall>s\<in>set N. plain_segment s" and u: "uploadDir cwd = CHR ''/'' # join_slash N"
    by blast
  from assms(2) have n: "n \<noteq> []" "CHR ''/'' \<notin> set n" by (simp_all add: plain_segment_def)
  have free: "\<forall>s\<in>set N. CHR ''/'' \<notin> set s"
    using plain by (simp add: plain_segment_def)
  define P where "P = join_slash N @ CHR ''/'' # n"
  have joined: "join_slash [uploadDir cwd, n] = CHR ''/'' # P"
    by (simp add: u P_def)
  have "split_slash P = split_slash (join_slash N) @ split_slash n"
    unfolding P_def by (rule split_slash_append)
  then have "split_slash P = N @ [n]"
    using split_join_slash [OF ne free] split_slash_plain [OF n(2)] by simp
  then have "normalizeString (CHR ''/'' # P) False = foldl (normalize_step False) [] (N @ [n])"
    by (simp add: normalizeString_def normalize_step_def)
  also have "\<dots> = N @ [n]"
    using normalize_fold_keep [of "N @ [n]" False "[]"] plain assms(2) by simp
  finally have ns: "normalizeString (CHR ''/'' # P) False = N @ [n]" .
  have "last n \<in> set n" using n(1) by (rule last_in_set)
  with n(2) have "last n \<noteq> CHR ''/''" by metis
  then have lastP: "last (CHR ''/'' # P) \<noteq> CHR ''/''"
    using n(1) by (simp add: P_def)
  have plain': "\<forall>s\<in>set (N @ [n]). plain_segment s"
    using plain assms(2) by simp
  have "path_join [uploadDir cwd, n] = path_normalize (CHR ''/'' # P)"
    using joined n by (simp add: path_join_def u)
  also have "\<dots> = CHR ''/'' # join_slash (N @ [n])"
    using normalize_absolute [OF _ plain' ns lastP] by simp
  also have "\<dots> = uploadDir cwd @ CHR ''/'' # n"
    by (simp add: join_slash_snoc [OF ne] u)
  finally show ?thesis .
qed

lemma demo_number: "number_text 1700000000000 = ''1700000000000''"
  by (simp add: number_text_def decimal.simps digit_char_def)

lemma demo_base: "basename ''../../etc/pass wd'' = ''pass wd''"
  by (simp add: basename_def)

lemma demo_sanitize: "sanitize ''pass wd'' = ''pass_wd''"
  by (simp add: sanitize_def safe_char_def)

lemma demo_safeName: "safeName 1700000000000 ''../../etc/pass wd'' = ''1700000000000-pass_wd''"
  by (simp add: safeName_def demo_number demo_base demo_sanitize)

lemma demo_uploadDir: "uploadDir ''/app'' = ''/app/public/uploads''"
  by (simp add: uploadDir_def path_join_def path_normalize_def normalizeString_def
      normalize_step_def Let_def)

lemma dist_xz_explicit:
  "dist_xz (wx, wy, wz) (ax, ay, az) = sqrt ((wx - ax) * (wx - ax) + (wz - az) * (wz - az))"
  by (simp add: dist_xz_def Let_def vx_def vz_def)

lemma getWorldPosition_explicit:
  "(o_parent obj = SceneRoot \<longrightarrow> getWorldPosition agv obj = o_position obj)
   \<and> (o_parent obj = Vehicle \<longrightarrow>
        getWorldPosition agv obj
          = (fst (agv_position agv)
               + (fst (o_position obj) * cos (agv_rotation_y agv)
                  + snd (snd (o_position obj)) * sin (agv_rotation_y agv)),
             fst (snd (agv_position agv)) + fst (snd (o_position obj)),
             snd (snd (agv_position agv))
               + (snd (snd (o_position obj)) * cos (agv_rotation_y agv)
                  - fst (o_position obj) * sin (agv_rotation_y agv))))"
  by (simp add: getWorldPosition_def localToWorld_def applyRotationY_def Let_def
      vx_def vy_def vz_def)

lemma demo_rule_id: "r_id demo_rule = ''box'' \<and> r_offset demo_rule = (1, 0, 0)"
  by (simp add: demo_rule_def)

lemma carried_after_down:
  "drag_step (DragMove_init, carried_page) (PointerDown carried_down carried_hits)
     = (\<lparr>draggingRef = True, dragYRef = Some 0, dragPosRef = Some (11, 0, 0),
          lastPointerRef = Some (100, 100), arrowDownRef = False, dragModeRef = None,
          dragOffsetRef = Some (0, 0, 0)\<rparr>,
        carried_page\<lparr>draggedUploadId := Some ''box'', isDragging := True,
                      pendingUndoRef := Some (uploads carried_page),
                      selectedPos := Some (1, 0, 0)\<rparr>)"
  by (simp add: onPointerDown_def carried_hits_def carried_down_def DragMove_init_def
      grab_offset_def intersect_down deliver_def onPick_def truthy_def Let_def copy_upload_same
      carried_page_def vx_def vy_def vz_def)

section \<open>Theorems\<close>

subsection \<open>Undo\<close>

text \<open>
  C7.  Ctrl+Z on an empty history stack returns the state unchanged (the handler is a
  total function, so nothing is thrown); on a stack whose top entry is \<open>snap\<close> it
  removes exactly that entry and the uploads state becomes \<open>snap\<close> as a whole.
\<close>

theorem undo_empty_noop_nonempty_pops_top:
  "onUndo ctrl_z (s\<lparr>uploadHistoryRef := []\<rparr>) = s\<lparr>uploadHistoryRef := []\<rparr>
   \<and> onUndo ctrl_z (s\<lparr>uploadHistoryRef := array_push h snap\<rparr>)
       = s\<lparr>uploadHistoryRef := h, uploads := snap\<rparr>"
  by (simp add: onUndo_def ctrl_z_def array_pop_def array_push_def)

theorem undo_empty_noop_nonempty_pops_top_witness:
  "onUndo ctrl_z demo_page = demo_page
   \<and> uploads (onUndo ctrl_z (demo_page\<lparr>uploadHistoryRef := array_push [] []\<rparr>)) = []
   \<and> uploadHistoryRef (onUndo ctrl_z (demo_page\<lparr>uploadHistoryRef := array_push [] []\<rparr>)) = []"
  using undo_empty_noop_nonempty_pops_top [of demo_page "[]" "[]"]
  by (simp add: demo_page_def)

subsection \<open>Attach / carry toggle\<close>

text \<open>
  C1 fails as stated: the box stands 2.05 units (in XZ) from the vehicle group, farther
  than the pick radius, and one press of Q attaches it, because the handler measures
  from \<open>agvPos\<close>, which a telemetry frame that has not accumulated 0.1 s leaves at the
  last sample, 1.95 units from the box.
\<close>

theorem toggle_stale_position_counterexample:
  "agvRef lag_page = Some \<lparr>agv_position = (0, 0, -1/10), agv_rotation_y = 0\<rparr>
   \<and> agvPos lag_page = (0, 0, 0)
   \<and> AGVTelemetry (1/25) (0, lag_page) = (1/25, lag_page)
   \<and> uploadObjectMapRef lag_page ''box'' = Some \<lparr>o_parent = SceneRoot, o_position = (0, 0, 39/20)\<rparr>
   \<and> carriedIds lag_page = []
   \<and> 2 < sqrt ((0 - 0) * (0 - 0) + (39/20 - (-1/10)) * (39/20 - (-1/10)))
   \<and> uploadObjectMapRef (onKeyQ key_q lag_page) ''box''
       = Some \<lparr>o_parent = Vehicle, o_position = (1, 0, 0)\<rparr>
   \<and> carriedIds (onKeyQ key_q lag_page) = [''box'']"
proof -
  have far: "2 < sqrt ((0 - 0) * (0 - 0) + (39/20 - (-1/10)) * (39/20 - (-1/10)))"
    by (simp add: sqrt_gt_2_iff)
  have tele: "AGVTelemetry (1/25) (0, lag_page) = (1/25, lag_page)"
    by (simp add: AGVTelemetry_def Let_def)
  have q: "onKeyQ key_q lag_page
      = lag_page\<lparr>uploadObjectMapRef := [''box'' \<mapsto> \<lparr>o_parent = Vehicle, o_position = (1, 0, 0)\<rparr>],
                 uploads := [\<lparr>u_id = ''box'', u_name = ''box.glb'', u_url = ''/uploads/1-box.glb'',
                              u_position = (1, 0, 0), u_scale = 1\<rparr>],
                 carriedIds := [''box'']\<rparr>"
    by (simp add: onKeyQ_def key_q_def lag_page_def lag_agv_def lag_obj_def demo_page_def
        demo_rule_def toggle_rule_def new_Set_def Set_has_def Set_add_def Let_def
        getWorldPosition_def dist_xz_gt_pickRadius pickRadius_def vx_def vz_def
        position_set_def agv_add_def set_upload_position_def)
  show ?thesis
    unfolding q using far tele
    by (simp add: lag_page_def lag_agv_def lag_obj_def demo_page_def)
qed

text \<open>
  C1, amended.  One press of Q with the vehicle mounted, for every rule of the rule
  list (whose ids are distinct, as Add Rule builds it) whose asset has a group in the
  scene, the world position of the asset being \<open>(wx, wy, wz)\<close> and the vehicle
  position the page holds, \<open>agvPos\<close>, being \<open>(ax, ay, az)\<close>.  An asset that is not in
  the carried set becomes a child of the vehicle with the rule's stored offset as its
  local position and enters the carried set when the horizontal distance
  \<open>sqrt ((wx - ax)\<^sup>2 + (wz - az)\<^sup>2)\<close> is at most 2; when it is more than 2 the asset
  stays as it is and out of the carried set.  An asset that is in the carried set
  becomes a child of the scene root at \<open>(wx, wy, wz)\<close> and leaves the carried set.
  The world position is the local position under the scene root, and the local
  position turned by the vehicle's rotation and moved by its position under the
  vehicle.
\<close>

theorem keyQ_toggles_each_rule:
  assumes "agvRef s = Some agv"
    and "distinct (map r_id (attachRules s))"
    and "rule \<in> set (attachRules s)"
    and "uploadObjectMapRef s (r_id rule) = Some obj"
    and "agvPos s = (ax, ay, az)"
    and "getWorldPosition agv obj = (wx, wy, wz)"
  shows "(r_id rule \<notin> set (carriedIds s)
            \<and> sqrt ((wx - ax) * (wx - ax) + (wz - az) * (wz - az)) \<le> 2 \<longrightarrow>
          uploadObjectMapRef (onKeyQ key_q s) (r_id rule)
            = Some \<lparr>o_parent = Vehicle, o_position = r_offset rule\<rparr>
          \<and> r_id rule \<in> set (carriedIds (onKeyQ key_q s)))
       \<and> (r_id rule \<notin> set (carriedIds s)
            \<and> 2 < sqrt ((wx - ax) * (wx - ax) + (wz - az) * (wz - az)) \<longrightarrow>
          uploadObjectMapRef (onKeyQ key_q s) (r_id rule) = Some obj
          \<and> r_id rule \<notin> set (carriedIds (onKeyQ key_q s)))
       \<and> (r_id rule \<in> set (carriedIds s) \<longrightarrow>
          uploadObjectMapRef (onKeyQ key_q s) (r_id rule)
            = Some \<lparr>o_parent = SceneRoot, o_position = (wx, wy, wz)\<rparr>
          \<and> r_id rule \<notin> set (carriedIds (onKeyQ key_q s)))
       \<and> (o_parent obj = SceneRoot \<longrightarrow> o_position obj = (wx, wy, wz))
       \<and> (o_parent obj = Vehicle \<longrightarrow>
            (wx, wy, wz)
              = (fst (agv_position agv)
                   + (fst (o_position obj) * cos (agv_rotation_y agv)
                      + snd (snd (o_position obj)) * sin (agv_rotation_y agv)),
                 fst (snd (agv_position agv)) + fst (snd (o_position obj)),
                 snd (snd (agv_position agv))
                   + (snd (snd (o_position obj)) * cos (agv_rotation_y agv)
                      - fst (o_position obj) * sin (agv_rotation_y agv))))"
proof -
  note eff = onKeyQ_rule [OF assms(1-4)]
  have d: "dist_xz (getWorldPosition agv obj) (agvPos s)
             = sqrt ((wx - ax) * (wx - ax) + (wz - az) * (wz - az))"
    by (simp add: assms(5,6) dist_xz_explicit)
  have attach: "position_set (r_offset rule) (agv_add obj)
                  = \<lparr>o_parent = Vehicle, o_position = r_offset rule\<rparr>"
    by (simp add: position_set_def agv_add_def Object3D_make)
  have detach: "scene_attach agv obj = \<lparr>o_parent = SceneRoot, o_position = (wx, wy, wz)\<rparr>"
    by (simp add: scene_attach_def assms(6))
  note w = getWorldPosition_explicit [of obj agv]
  show ?thesis
  proof (intro conjI impI)
    assume a: "r_id rule \<notin> set (carriedIds s)
            \<and> sqrt ((wx - ax) * (wx - ax) + (wz - az) * (wz - az)) \<le> 2"
    then show "uploadObjectMapRef (onKeyQ key_q s) (r_id rule)
            = Some \<lparr>o_parent = Vehicle, o_position = r_offset rule\<rparr>"
      using eff d attach by (simp add: pickRadius_def)
    from a show "r_id rule \<in> set (carriedIds (onKeyQ key_q s))"
      using eff d by (simp add: pickRadius_def)
  next
    assume a: "r_id rule \<notin> set (carriedIds s)
            \<and> 2 < sqrt ((wx - ax) * (wx - ax) + (wz - az) * (wz - az))"
    then show "uploadObjectMapRef (onKeyQ key_q s) (r_id rule) = Some obj"
      using eff d by (simp add: pickRadius_def)
    from a show "r_id rule \<notin> set (carriedIds (onKeyQ key_q s))"
      using eff d by (simp add: pickRadius_def)
  next
    assume a: "r_id rule \<in> set (carriedIds s)"
    then show "uploadObjectMapRef (onKeyQ key_q s) (r_id rule)
            = Some \<lparr>o_parent = SceneRoot, o_position = (wx, wy, wz)\<rparr>"
      using eff detach by simp
    from a show "r_id rule \<notin> set (carriedIds (onKeyQ key_q s))"
      using eff by simp
  next
    assume "o_parent obj = SceneRoot"
    then show "o_position obj = (wx, wy, wz)"
      using w assms(6) by simp
  next
    assume "o_parent obj = Vehicle"
    then show "(wx, wy, wz)
              = (fst (agv_position agv)
                   + (fst (o_position obj) * cos (agv_rotation_y agv)
                      + snd (snd (o_position obj)) * sin (agv_rotation_y agv)),
                 fst (snd (agv_position agv)) + fst (snd (o_position obj)),
                 snd (snd (agv_position agv))
                   + (snd (snd (o_position obj)) * cos (agv_rotation_y agv)
                      - fst (o_position obj) * sin (agv_rotation_y agv)))"
      using w assms(6) by simp
  qed
qed

theorem keyQ_toggles_each_rule_witness:
  "sqrt ((1/2 - 0) * (1/2 - 0) + (0 - 0) * (0 - 0)) \<le> 2
   \<and> uploadObjectMapRef demo_page ''box'' = Some \<lparr>o_parent = SceneRoot, o_position = (1/2, 0, 0)\<rparr>
   \<and> uploadObjectMapRef (onKeyQ key_q demo_page) ''box''
       = Some \<lparr>o_parent = Vehicle, o_position = (1, 0, 0)\<rparr>
   \<and> ''box'' \<in> set (carriedIds (onKeyQ key_q demo_page))
   \<and> 2 < sqrt ((0 - 0) * (0 - 0) + (3 - 0) * (3 - 0))
   \<and> uploadObjectMapRef far_page ''box'' = Some \<lparr>o_parent = SceneRoot, o_position = (0, 0, 3)\<rparr>
   \<and> uploadObjectMapRef (onKeyQ key_q far_page) ''box''
       = Some \<lparr>o_parent = SceneRoot, o_position = (0, 0, 3)\<rparr>
   \<and> ''box'' \<notin> set (carriedIds (onKeyQ key_q far_page))
   \<and> uploadObjectMapRef carried_page ''box'' = Some \<lparr>o_parent = Vehicle, o_position = (1, 0, 0)\<rparr>
   \<and> ''box'' \<in> set (carriedIds carried_page)
   \<and> uploadObjectMapRef (onKeyQ key_q carried_page) ''box''
       = Some \<lparr>o_parent = SceneRoot, o_position = (11, 0, 0)\<rparr>
   \<and> ''box'' \<notin> set (carriedIds (onKeyQ key_q carried_page))"
proof -
  have near: "sqrt ((1/2 - 0) * (1/2 - 0) + (0 - 0) * (0 - 0)) \<le> (2::real)"
    by (simp add: sqrt_le_2_iff)
  have far: "(2::real) < sqrt ((0 - 0) * (0 - 0) + (3 - 0) * (3 - 0))"
    by (simp add: sqrt_gt_2_iff)
  have h1: "agvRef demo_page = Some demo_agv" "distinct (map r_id (attachRules demo_page))"
    "demo_rule \<in> set (attachRules demo_page)"
    "uploadObjectMapRef demo_page (r_id demo_rule) = Some demo_obj"
    "agvPos demo_page = (0, 0, 0)" "getWorldPosition demo_agv demo_obj = (1/2, 0, 0)"
    by (simp_all add: demo_page_def demo_rule_def getWorldPosition_def demo_obj_def)
  have h2: "agvRef far_page = Some demo_agv" "distinct (map r_id (attachRules far_page))"
    "demo_rule \<in> set (attachRules far_page)"
    "uploadObjectMapRef far_page (r_id demo_rule) = Some far_obj"
    "agvPos far_page = (0, 0, 0)" "getWorldPosition demo_agv far_obj = (0, 0, 3)"
    by (simp_all add: far_page_def demo_page_def demo_rule_def getWorldPosition_def far_obj_def)
  have h3: "agvRef carried_page = Some carried_agv"
    "distinct (map r_id (attachRules carried_page))"
    "demo_rule \<in> set (attachRules carried_page)"
    "uploadObjectMapRef carried_page (r_id demo_rule) = Some carried_obj"
    "agvPos carried_page = (10, 0, 0)" "getWorldPosition carried_agv carried_obj = (11, 0, 0)"
    by (simp_all add: carried_page_def demo_rule_def getWorldPosition_def carried_obj_def
        carried_agv_def localToWorld_def applyRotationY_def Let_def vx_def vy_def vz_def)
  have free: "''box'' \<notin> set (carriedIds demo_page)" "''box'' \<notin> set (carriedIds far_page)"
    and held: "''box'' \<in> set (carriedIds carried_page)"
    by (simp_all add: demo_page_def far_page_def carried_page_def)
  show ?thesis
    using keyQ_toggles_each_rule [OF h1] keyQ_toggles_each_rule [OF h2]
      keyQ_toggles_each_rule [OF h3] near far free held h1(4) h2(4) h3(4)
    by (simp add: demo_rule_id demo_obj_def far_obj_def carried_obj_def)
qed

text \<open>
  C2 fails as stated: the box stands at x = 1/2, the first press of Q attaches it at the
  rule's offset, the second press detaches it at x = 1, half a unit from where it was.
\<close>

theorem toggle_round_trip_counterexample:
  "uploadObjectMapRef demo_page ''box'' = Some \<lparr>o_parent = SceneRoot, o_position = (1/2, 0, 0)\<rparr>
   \<and> uploadObjectMapRef (onKeyQ key_q demo_page) ''box''
       = Some \<lparr>o_parent = Vehicle, o_position = (1, 0, 0)\<rparr>
   \<and> carriedIds (onKeyQ key_q demo_page) = [''box'']
   \<and> agvRef (onKeyQ key_q demo_page) = agvRef demo_page
   \<and> agvPos (onKeyQ key_q demo_page) = agvPos demo_page
   \<and> uploadObjectMapRef (onKeyQ key_q (onKeyQ key_q demo_page)) ''box''
       = Some \<lparr>o_parent = SceneRoot, o_position = (1, 0, 0)\<rparr>
   \<and> carriedIds (onKeyQ key_q (onKeyQ key_q demo_page)) = []
   \<and> \<bar>1 - 1/2\<bar> > (1/10000 :: real)"
proof -
  have one: "onKeyQ key_q demo_page
      = demo_page\<lparr>uploadObjectMapRef := [''box'' \<mapsto> \<lparr>o_parent = Vehicle, o_position = (1, 0, 0)\<rparr>],
                  uploads := [\<lparr>u_id = ''box'', u_name = ''box.glb'', u_url = ''/uploads/1-box.glb'',
                               u_position = (1, 0, 0), u_scale = 1\<rparr>],
                  carriedIds := [''box'']\<rparr>"
    by (simp add: onKeyQ_def key_q_def demo_page_def demo_agv_def demo_rule_def demo_obj_def
        toggle_rule_def new_Set_def Set_has_def Set_add_def Let_def getWorldPosition_def
        dist_xz_gt_pickRadius pickRadius_def vx_def vz_def position_set_def agv_add_def
        set_upload_position_def)
  have two: "onKeyQ key_q (onKeyQ key_q demo_page)
      = demo_page\<lparr>uploadObjectMapRef := [''box'' \<mapsto> \<lparr>o_parent = SceneRoot, o_position = (1, 0, 0)\<rparr>],
                  uploads := [\<lparr>u_id = ''box'', u_name = ''box.glb'', u_url = ''/uploads/1-box.glb'',
                               u_position = (1, 0, 0), u_scale = 1\<rparr>],
                  carriedIds := []\<rparr>"
    unfolding one
    by (simp add: onKeyQ_def key_q_def demo_page_def demo_agv_def demo_rule_def
        toggle_rule_def new_Set_def Set_has_def Set_add_def Set_delete_def Let_def
        getWorldPosition_def localToWorld_def applyRotationY_def scene_attach_def
        vx_def vy_def vz_def set_upload_position_def)
  show ?thesis
    unfolding two unfolding one by (simp add: demo_page_def demo_obj_def)
qed

text \<open>
  C2, amended.  For an asset with a rule that is free and within the pick radius, two
  presses of Q in succession (attach, then detach, the vehicle not moving) leave the
  asset a child of the scene root at the vehicle's world transform applied to the rule's
  stored offset, out of the carried set.  That point is the asset's position before the
  attach when the rule's offset is the one Add Rule records in this state for an asset of
  the scene root, the vehicle being unrotated and \<open>agvPos\<close> being its position.
\<close>

theorem toggle_twice_lands_at_rule_offset:
  assumes "agvRef s = Some agv"
    and "distinct (map r_id (attachRules s))"
    and "rule \<in> set (attachRules s)"
    and "uploadObjectMapRef s (r_id rule) = Some obj"
    and "r_id rule \<notin> set (carriedIds s)"
    and "dist_xz (getWorldPosition agv obj) (agvPos s) \<le> 2"
  shows "uploadObjectMapRef (onKeyQ key_q (onKeyQ key_q s)) (r_id rule)
           = Some \<lparr>o_parent = SceneRoot, o_position = localToWorld agv (r_offset rule)\<rparr>
         \<and> r_id rule \<notin> set (carriedIds (onKeyQ key_q (onKeyQ key_q s)))
         \<and> (o_parent obj = SceneRoot \<and> rule_for agv s (r_id rule) = Some rule
              \<and> agv_rotation_y agv = 0 \<and> agvPos s = agv_position agv
            \<longrightarrow> localToWorld agv (r_offset rule) = o_position obj)"
proof -
  define s1 where "s1 = onKeyQ key_q s"
  have first: "uploadObjectMapRef s1 (r_id rule) = Some (position_set (r_offset rule) (agv_add obj))"
    and c1: "r_id rule \<in> set (carriedIds s1)"
    using onKeyQ_rule [OF assms(1-4)] assms(5,6) by (simp_all add: s1_def pickRadius_def)
  have frame: "agvRef s1 = Some agv" "distinct (map r_id (attachRules s1))"
    "rule \<in> set (attachRules s1)"
    using onKeyQ_frame [of key_q s] assms(1-3) by (simp_all add: s1_def)
  have second: "uploadObjectMapRef (onKeyQ key_q s1) (r_id rule)
          = Some (scene_attach agv (position_set (r_offset rule) (agv_add obj)))"
    and c2: "r_id rule \<notin> set (carriedIds (onKeyQ key_q s1))"
    using onKeyQ_rule [OF frame first] c1 by simp_all
  have land: "scene_attach agv (position_set (r_offset rule) (agv_add obj))
          = \<lparr>o_parent = SceneRoot, o_position = localToWorld agv (r_offset rule)\<rparr>"
    by (simp add: scene_attach_def position_set_def agv_add_def getWorldPosition_def)
  have restored: "localToWorld agv (r_offset rule) = o_position obj"
    if "o_parent obj = SceneRoot" and "rule_for agv s (r_id rule) = Some rule"
      and "agv_rotation_y agv = 0" and "agvPos s = agv_position agv"
  proof -
    from that(2) assms(4) have "rule = \<lparr>r_id = r_id rule, r_offset =
        (vx (getWorldPosition agv obj) - vx (agvPos s), vy (getWorldPosition agv obj) - vy (agvPos s),
         vz (getWorldPosition agv obj) - vz (agvPos s))\<rparr>"
      by (simp add: rule_for_def Let_def)
    then have "r_offset rule =
        (vx (getWorldPosition agv obj) - vx (agvPos s), vy (getWorldPosition agv obj) - vy (agvPos s),
         vz (getWorldPosition agv obj) - vz (agvPos s))"
      by (cases rule) simp
    with that(1,3,4) show ?thesis
      by (simp add: localToWorld_def applyRotationY_def getWorldPosition_def Let_def
          vx_def vy_def vz_def)
  qed
  show ?thesis
    using second c2 land restored by (simp add: s1_def)
qed

theorem toggle_twice_lands_at_rule_offset_witness:
  "agvRef demo_page_at_offset = Some demo_agv
   \<and> distinct (map r_id (attachRules demo_page_at_offset))
   \<and> demo_rule \<in> set (attachRules demo_page_at_offset)
   \<and> uploadObjectMapRef demo_page_at_offset (r_id demo_rule) = Some demo_obj_at_offset
   \<and> r_id demo_rule \<notin> set (carriedIds demo_page_at_offset)
   \<and> dist_xz (getWorldPosition demo_agv demo_obj_at_offset) (agvPos demo_page_at_offset) \<le> 2
   \<and> o_parent demo_obj_at_offset = SceneRoot
   \<and> rule_for demo_agv demo_page_at_offset (r_id demo_rule) = Some demo_rule
   \<and> agv_rotation_y demo_agv = 0
   \<and> agvPos demo_page_at_offset = agv_position demo_agv
   \<and> uploadObjectMapRef (onKeyQ key_q (onKeyQ key_q demo_page_at_offset)) (r_id demo_rule)
       = Some \<lparr>o_parent = SceneRoot, o_position = o_position demo_obj_at_offset\<rparr>
   \<and> r_id demo_rule \<notin> set (carriedIds (onKeyQ key_q (onKeyQ key_q demo_page_at_offset)))"
proof -
  have h: "agvRef demo_page_at_offset = Some demo_agv"
    "distinct (map r_id (attachRules demo_page_at_offset))"
    "demo_rule \<in> set (attachRules demo_page_at_offset)"
    "uploadObjectMapRef demo_page_at_offset (r_id demo_rule) = Some demo_obj_at_offset"
    "r_id demo_rule \<notin> set (carriedIds demo_page_at_offset)"
    by (simp_all add: demo_page_at_offset_def demo_page_def demo_rule_def)
  have near: "dist_xz (getWorldPosition demo_agv demo_obj_at_offset) (agvPos demo_page_at_offset) \<le> 2"
    by (simp add: dist_xz_le_pickRadius getWorldPosition_def demo_obj_at_offset_def
        demo_page_at_offset_def demo_page_def vx_def vz_def)
  have made: "o_parent demo_obj_at_offset = SceneRoot"
    "rule_for demo_agv demo_page_at_offset (r_id demo_rule) = Some demo_rule"
    "agv_rotation_y demo_agv = 0" "agvPos demo_page_at_offset = agv_position demo_agv"
    by (simp_all add: rule_for_def demo_page_at_offset_def demo_page_def demo_rule_def
        demo_obj_at_offset_def demo_agv_def getWorldPosition_def vx_def vy_def vz_def)
  show ?thesis
    using toggle_twice_lands_at_rule_offset [OF h near] h near made by simp
qed

subsection \<open>Drag sessions and the undo stack\<close>

text \<open>
  C6 fails as stated, a drag starting at the first pointer-move as in section 4.3 of the
  spec: a pointer-down on the box followed at once by the pointer-up, with no
  pointer-move in between, pushes an entry.
\<close>

theorem click_pushes_snapshot_counterexample:
  "uploadHistoryRef demo_page = []
   \<and> uploadHistoryRef (snd (drag_run (DragMove_init, demo_page)
        [PointerDown demo_down demo_hits, PointerUp])) = [uploads demo_page]
   \<and> uploads (snd (drag_run (DragMove_init, demo_page)
        [PointerDown demo_down demo_hits, PointerUp])) = uploads demo_page"
proof -
  have "drag_run (DragMove_init, demo_page) [PointerDown demo_down demo_hits, PointerUp]
      = drag_step (drag_step (DragMove_init, demo_page) (PointerDown demo_down demo_hits)) PointerUp"
    by (simp add: drag_run_def)
  then show ?thesis
    unfolding demo_after_down
    by (simp add: onPointerUp_def deliver_def onDrop_def array_push_def Let_def demo_page_def)
qed

text \<open>
  C6, amended.  From a state with no drag under way: a cycle of a pointer-down that
  grabs an asset, any events of the session (pointer-moves or none) and a drop pushes
  nothing before its drop and exactly one entry at its drop (pointer-up or
  pointer-leave), the uploads as they were at the grab; \<open>N\<close> consecutive cycles push
  exactly \<open>N\<close> entries; Ctrl+Z after any of them gives back the uploads and the stack
  as they were before that cycle's grab; and a pointer-down that hits no asset,
  followed by a pointer-up, pushes nothing.
\<close>

theorem drop_pushes_one_snapshot_per_cycle:
  assumes "idle st" and "list_all drag_cycle cs"
  shows "length (uploadHistoryRef (snd (run_cycles st cs))) = length (uploadHistoryRef (snd st)) + length cs
       \<and> (\<forall>pre c post. cs = pre @ c # post \<longrightarrow>
             uploadHistoryRef (snd (drag_run (run_cycles st pre)
                 (PointerDown (c_down c) (c_hits c) # c_session c)))
               = uploadHistoryRef (snd (run_cycles st pre))
           \<and> uploadHistoryRef (snd (run_cycles st (pre @ [c])))
               = uploadHistoryRef (snd (run_cycles st pre)) @ [uploads (snd (run_cycles st pre))]
           \<and> uploads (onUndo ctrl_z (snd (run_cycles st (pre @ [c])))) = uploads (snd (run_cycles st pre))
           \<and> uploadHistoryRef (onUndo ctrl_z (snd (run_cycles st (pre @ [c]))))
               = uploadHistoryRef (snd (run_cycles st pre)))
       \<and> (\<forall>(e::PointerEvent) hits. button e = 0 \<and> find_grab hits = None \<longrightarrow>
             uploadHistoryRef (snd (drag_run st [PointerDown e hits, PointerUp]))
               = uploadHistoryRef (snd st))"
proof (intro conjI allI impI)
  show "length (uploadHistoryRef (snd (run_cycles st cs))) = length (uploadHistoryRef (snd st)) + length cs"
    using run_cycles_count [OF assms] by simp
next
  fix pre c post
  assume split: "cs = pre @ c # post"
  with assms(2) have "list_all drag_cycle pre" and c: "drag_cycle c" by simp_all
  then have i: "idle (run_cycles st pre)"
    using run_cycles_count [OF assms(1)] by simp
  note eff = cycle_effect [OF i c]
  show "uploadHistoryRef (snd (drag_run (run_cycles st pre)
                 (PointerDown (c_down c) (c_hits c) # c_session c)))
               = uploadHistoryRef (snd (run_cycles st pre))"
    using eff by simp
  have push: "uploadHistoryRef (snd (run_cycles st (pre @ [c])))
               = array_push (uploadHistoryRef (snd (run_cycles st pre))) (uploads (snd (run_cycles st pre)))"
    using eff by (simp add: run_cycles_snoc)
  then show "uploadHistoryRef (snd (run_cycles st (pre @ [c])))
               = uploadHistoryRef (snd (run_cycles st pre)) @ [uploads (snd (run_cycles st pre))]"
    by (simp add: array_push_def)
  show "uploads (onUndo ctrl_z (snd (run_cycles st (pre @ [c])))) = uploads (snd (run_cycles st pre))"
    using undo_after_push [OF push] by simp
  show "uploadHistoryRef (onUndo ctrl_z (snd (run_cycles st (pre @ [c]))))
               = uploadHistoryRef (snd (run_cycles st pre))"
    using undo_after_push [OF push] by simp
next
  fix e :: PointerEvent and hits
  assume "button e = 0 \<and> find_grab hits = None"
  then show "uploadHistoryRef (snd (drag_run st [PointerDown e hits, PointerUp]))
               = uploadHistoryRef (snd st)"
    using miss_state [OF assms(1)] by simp
qed

theorem drop_pushes_one_snapshot_per_cycle_witness:
  "idle (DragMove_init, demo_page) \<and> list_all drag_cycle [demo_cycle, demo_click]
   \<and> c_session demo_click = []
   \<and> length (uploadHistoryRef (snd (run_cycles (DragMove_init, demo_page) [demo_cycle, demo_click]))) = 2
   \<and> uploadHistoryRef (snd (run_cycles (DragMove_init, demo_page) [demo_cycle]))
       = [uploads demo_page]
   \<and> uploads (onUndo ctrl_z (snd (run_cycles (DragMove_init, demo_page) [demo_cycle])))
       = uploads demo_page
   \<and> uploadHistoryRef (snd (drag_run (DragMove_init, demo_page) [PointerDown demo_down [], PointerUp]))
       = []"
proof -
  have cs: "list_all drag_cycle [demo_cycle, demo_click]"
    by (simp add: demo_cycle_ok demo_click_ok)
  note t = drop_pushes_one_snapshot_per_cycle [OF demo_idle cs]
  have a: "length (uploadHistoryRef (snd (run_cycles (DragMove_init, demo_page) [demo_cycle, demo_click]))) = 2"
    using t by (simp add: demo_page_def)
  have "[demo_cycle, demo_click] = [] @ demo_cycle # [demo_click]" by simp
  with t have "uploadHistoryRef (snd (run_cycles (DragMove_init, demo_page) ([] @ [demo_cycle])))
       = uploadHistoryRef (snd (run_cycles (DragMove_init, demo_page) []))
         @ [uploads (snd (run_cycles (DragMove_init, demo_page) []))]
     \<and> uploads (onUndo ctrl_z (snd (run_cycles (DragMove_init, demo_page) ([] @ [demo_cycle]))))
       = uploads (snd (run_cycles (DragMove_init, demo_page) []))"
    by blast
  then have b: "uploadHistoryRef (snd (run_cycles (DragMove_init, demo_page) [demo_cycle]))
       = [uploads demo_page]"
    "uploads (onUndo ctrl_z (snd (run_cycles (DragMove_init, demo_page) [demo_cycle])))
       = uploads demo_page"
    by (simp_all add: run_cycles_def demo_page_def)
  have "button demo_down = 0 \<and> find_grab [] = None" by (simp add: demo_down_def)
  with t have c: "uploadHistoryRef (snd (drag_run (DragMove_init, demo_page) [PointerDown demo_down [], PointerUp]))
       = uploadHistoryRef (snd (DragMove_init, demo_page))"
    by blast
  show ?thesis
    using a b c cs demo_idle by (simp add: demo_page_def demo_click_def)
qed

subsection \<open>Drag modes\<close>

text \<open>
  C3 fails as stated: the first move of the example drag chooses the horizontal mode and
  puts the box at height 0; with ArrowDown pressed after it, the next move leaves the
  stored mode horizontal and yet moves the box down by one unit, its X and Z not
  following the pointer ray.
\<close>

theorem drag_mode_stability_counterexample:
  "dragModeRef (fst (drag_run (DragMove_init, demo_page)
       [PointerDown demo_down demo_hits, PointerMove demo_right])) = Some ModeXZ
   \<and> map u_position (uploads (snd (drag_run (DragMove_init, demo_page)
       [PointerDown demo_down demo_hits, PointerMove demo_right]))) = [(7/2, 0, 4)]
   \<and> dragModeRef (fst (drag_run (DragMove_init, demo_page)
       [PointerDown demo_down demo_hits, PointerMove demo_right,
        KeyDown arrow_down, PointerMove demo_below])) = Some ModeXZ
   \<and> map u_position (uploads (snd (drag_run (DragMove_init, demo_page)
       [PointerDown demo_down demo_hits, PointerMove demo_right,
        KeyDown arrow_down, PointerMove demo_below]))) = [(7/2, -1, 4)]"
proof -
  have split: "drag_run (DragMove_init, demo_page)
       [PointerDown demo_down demo_hits, PointerMove demo_right,
        KeyDown arrow_down, PointerMove demo_below]
     = drag_run (drag_run (DragMove_init, demo_page)
          [PointerDown demo_down demo_hits, PointerMove demo_right])
          [KeyDown arrow_down, PointerMove demo_below]"
    by (simp add: drag_run_def)
  show ?thesis
    unfolding split demo_after_right
    by (simp add: drag_run_def onKeyDown_def arrow_down_def onPointerMove_def choose_mode_def
        vertical_move_def lastPointer_def currentPos_def demo_below_def deliver_def onMove_def
        Let_def vx_def vy_def vz_def demo_page_def set_upload_position_def)
qed

text \<open>
  C3, amended.  Once \<open>dragModeRef\<close> holds a mode during a drag, no key event and no
  pointer-move of the session changes it, and every later pointer-move is a vertical
  move when ArrowDown is held at that move or the mode is Y, and a horizontal move
  otherwise, whatever its pixel deltas are.
\<close>

theorem chosen_mode_is_kept:
  assumes "draggingRef (fst st)" and "dragModeRef (fst st) = Some m"
    and "list_all within_session evs"
  shows "draggingRef (fst (drag_run st evs))
       \<and> dragModeRef (fst (drag_run st evs)) = Some m
       \<and> (\<forall>g e. onPointerMove g e (fst (drag_run st evs))
              = (if arrowDownRef (fst (drag_run st evs)) \<or> m = ModeY
                 then vertical_move g e (fst (drag_run st evs))
                 else horizontal_move g e (fst (drag_run st evs))))"
proof -
  define d where "d = fst (drag_run st evs)"
  have "session_frame st (drag_run st evs)"
    using drag_run_session [OF assms(3)] .
  with assms(1,2) have dr: "draggingRef d" and mo: "dragModeRef d = Some m"
    by (simp_all add: session_frame_def d_def)
  have "onPointerMove g e d
          = (if arrowDownRef d \<or> m = ModeY then vertical_move g e d else horizontal_move g e d)"
    for g e
    using dr mo by (simp add: onPointerMove_def choose_mode_set Let_def)
  with dr mo show ?thesis
    by (simp add: d_def)
qed

theorem chosen_mode_is_kept_witness:
  "draggingRef (fst (drag_run (DragMove_init, demo_page)
       [PointerDown demo_down demo_hits, PointerMove demo_right]))
   \<and> dragModeRef (fst (drag_run (DragMove_init, demo_page)
       [PointerDown demo_down demo_hits, PointerMove demo_right])) = Some ModeXZ
   \<and> list_all within_session [PointerMove demo_below, KeyUp arrow_down]
   \<and> dragModeRef (fst (drag_run (drag_run (DragMove_init, demo_page)
         [PointerDown demo_down demo_hits, PointerMove demo_right])
       [PointerMove demo_below, KeyUp arrow_down])) = Some ModeXZ"
proof -
  have h: "draggingRef (fst (drag_run (DragMove_init, demo_page)
       [PointerDown demo_down demo_hits, PointerMove demo_right]))"
    "dragModeRef (fst (drag_run (DragMove_init, demo_page)
       [PointerDown demo_down demo_hits, PointerMove demo_right])) = Some ModeXZ"
    "list_all within_session [PointerMove demo_below, KeyUp arrow_down]"
    by (simp_all add: demo_after_right)
  show ?thesis
    using chosen_mode_is_kept [OF h] h by simp
qed

text \<open>
  C4.  The first pointer-move after a pointer-down that grabs an asset at world position
  \<open>wp\<close>: if ArrowDown is held, or if the vertical pixel delta since the grab exceeds
  1.3 times the horizontal one, the move is vertical (the height changes by -0.02 times
  the pixel delta, X and Z stay); otherwise it is horizontal (on the plane at the
  grabbed height).  When ArrowDown is not held the mode stored is Y in the first case
  and XZ in the second.
\<close>

theorem first_move_chooses_mode:
  assumes "button e0 = 0" and "find_grab hits = Some (i, wp)"
  shows "(arrowDownRef d0 \<or> \<bar>clientY e - clientY e0\<bar> > \<bar>clientX e - clientX e0\<bar> * 1.3 \<longrightarrow>
            snd (onPointerMove g e (fst (onPointerDown e0 hits d0)))
              = Some (Move (vx wp, vy wp - (clientY e - clientY e0) * 0.02, vz wp)))
       \<and> (\<not> arrowDownRef d0 \<and> \<not> \<bar>clientY e - clientY e0\<bar> > \<bar>clientX e - clientX e0\<bar> * 1.3 \<longrightarrow>
            snd (onPointerMove g e (fst (onPointerDown e0 hits d0)))
              = map_option (\<lambda>p. Move (vx p + vx (grab_offset e0 wp), vy wp,
                                       vz p + vz (grab_offset e0 wp)))
                  (intersectPlane (pointerRay e) (vy wp)))
       \<and> (\<not> arrowDownRef d0 \<longrightarrow>
            dragModeRef (fst (onPointerMove g e (fst (onPointerDown e0 hits d0))))
              = Some (if \<bar>clientY e - clientY e0\<bar> > \<bar>clientX e - clientX e0\<bar> * 1.3
                      then ModeY else ModeXZ))"
proof -
  define armed where "armed = d0\<lparr>dragYRef := Some (vy wp), dragPosRef := Some (vx wp, vy wp, vz wp),
          lastPointerRef := Some (clientX e0, clientY e0), dragModeRef := None,
          dragOffsetRef := Some (grab_offset e0 wp), draggingRef := True\<rparr>"
  have a: "fst (onPointerDown e0 hits d0) = armed"
    using assms by (simp add: onPointerDown_def armed_def)
  show ?thesis
    unfolding a
    by (simp add: armed_def onPointerMove_def choose_mode_def lastPointer_def currentPos_def
        vertical_move_def horizontal_move_def Let_def vx_def vy_def vz_def
        split: option.splits)
qed

theorem first_move_chooses_mode_witness:
  "button demo_down = 0 \<and> find_grab demo_hits = Some (''box'', (1/2, 0, 0))
   \<and> \<not> arrowDownRef DragMove_init
   \<and> \<bar>clientY demo_below - clientY demo_down\<bar> > \<bar>clientX demo_below - clientX demo_down\<bar> * 1.3
   \<and> snd (onPointerMove 0 demo_below (fst (onPointerDown demo_down demo_hits DragMove_init)))
       = Some (Move (1/2, -1, 0))
   \<and> dragModeRef (fst (onPointerMove 0 demo_below (fst (onPointerDown demo_down demo_hits DragMove_init))))
       = Some ModeY"
proof -
  have h: "button demo_down = 0" "find_grab demo_hits = Some (''box'', (1/2, 0, 0))"
    by (simp_all add: demo_down_def demo_grab)
  have k: "\<not> arrowDownRef DragMove_init"
    "\<bar>clientY demo_below - clientY demo_down\<bar> > \<bar>clientX demo_below - clientX demo_down\<bar> * 1.3"
    by (simp_all add: DragMove_init_def demo_below_def demo_down_def)
  show ?thesis
    using first_move_chooses_mode [OF h, of DragMove_init demo_below 0] h k
    by (simp add: vx_def vy_def vz_def demo_below_def demo_down_def)
qed

text \<open>
  C5 at a carried asset.  The box is carried one unit ahead of the vehicle, at x = 11 in
  the world.  The pointer-down grabs it there with grab offset zero, the move is made in
  horizontal mode and its ray meets the plane at x = 12; the page stores (12, 0, 0) as
  the position of the upload, its group takes it as local position under the vehicle,
  and the box stands at x = 22 in the world, not at x = 12.
\<close>

theorem carried_drag_misplaces_asset:
  "uploadObjectMapRef carried_page ''box'' = Some \<lparr>o_parent = Vehicle, o_position = (1, 0, 0)\<rparr>
   \<and> getWorldPosition carried_agv \<lparr>o_parent = Vehicle, o_position = (1, 0, 0)\<rparr> = (11, 0, 0)
   \<and> find_grab carried_hits = Some (''box'', (11, 0, 0))
   \<and> grab_offset carried_down (11, 0, 0) = (0, 0, 0)
   \<and> intersectPlane (pointerRay carried_move) 0 = Some (12, 0, 0)
   \<and> dragModeRef (fst (drag_run (DragMove_init, carried_page)
        [PointerDown carried_down carried_hits, PointerMove carried_move])) = Some ModeXZ
   \<and> map u_position (uploads (snd (drag_run (DragMove_init, carried_page)
        [PointerDown carried_down carried_hits, PointerMove carried_move]))) = [(12, 0, 0)]
   \<and> uploadObjectMapRef (snd (drag_run (DragMove_init, carried_page)
        [PointerDown carried_down carried_hits, PointerMove carried_move])) ''box''
       = Some \<lparr>o_parent = Vehicle, o_position = (12, 0, 0)\<rparr>
   \<and> getWorldPosition carried_agv \<lparr>o_parent = Vehicle, o_position = (12, 0, 0)\<rparr> = (22, 0, 0)"
proof -
  have run: "drag_run (DragMove_init, carried_page)
        [PointerDown carried_down carried_hits, PointerMove carried_move]
     = (\<lparr>draggingRef = True, dragYRef = Some 0, dragPosRef = Some (12, 0, 0),
          lastPointerRef = Some (110, 100), arrowDownRef = False, dragModeRef = Some ModeXZ,
          dragOffsetRef = Some (0, 0, 0)\<rparr>,
        carried_page\<lparr>draggedUploadId := Some ''box'', isDragging := True,
                      pendingUndoRef := Some (uploads carried_page),
                      uploads := set_upload_position ''box'' (12, 0, 0) (uploads carried_page),
                      selectedPos := Some (12, 0, 0),
                      uploadObjectMapRef :=
                        [''box'' \<mapsto> \<lparr>o_parent = Vehicle, o_position = (12, 0, 0)\<rparr>]\<rparr>)"
    unfolding drag_run_def foldl.simps carried_after_down
    by (simp add: onPointerMove_def choose_mode_def lastPointer_def currentPos_def
        horizontal_move_def carried_move_def intersect_down deliver_def onMove_def Let_def
        vx_def vy_def vz_def carried_page_def UploadedGLB_position_def position_set_def
        carried_obj_def)
  have w: "getWorldPosition carried_agv \<lparr>o_parent = Vehicle, o_position = (x, 0, 0)\<rparr> = (10 + x, 0, 0)"
    for x
    by (simp add: getWorldPosition_def localToWorld_def applyRotationY_def carried_agv_def
        Let_def vx_def vy_def vz_def)
  show ?thesis
    unfolding run
    by (simp add: w carried_page_def carried_obj_def carried_hits_def grab_offset_def
        carried_down_def carried_move_def intersect_down set_upload_position_def
        vx_def vy_def vz_def)
qed

text \<open>
  The horizontal move for an asset that is a child of the scene root.  In the session
  opened by a pointer-down that grabs asset \<open>i\<close> at world position \<open>(wx, wy, wz)\<close>, a
  pointer-move made in horizontal mode (ArrowDown not held, the mode XZ) whose ray meets
  the horizontal plane at the grabbed height \<open>wy\<close> in \<open>(px, py, pz)\<close> stores
  \<open>(px + ox, wy, pz + oz)\<close> as the position of upload \<open>i\<close> and of its group, which is
  the world position of a group under the scene root; \<open>(ox, oy, oz)\<close> is the grab
  offset, the asset's world XZ minus the point where the ray of the pointer-down met
  that plane, and the grabbed height and the offset stay those of the grab.
\<close>

theorem horizontal_move_follows_plane:
  assumes "button e0 = 0" and "find_grab hits = Some (i, (wx, wy, wz))"
    and "list_all within_session evs"
    and "st = drag_run (drag_step (d0, s0) (PointerDown e0 hits)) evs"
    and "\<not> arrowDownRef (fst st)"
    and "dragModeRef (choose_mode e (fst st)) = Some ModeXZ"
    and "intersectPlane (pointerRay e) wy = Some (px, py, pz)"
    and "grab_offset e0 (wx, wy, wz) = (ox, oy, oz)"
    and "uploadObjectMapRef (snd st) i = Some obj"
  shows "snd (onPointerMove g e (fst st)) = Some (Move (px + ox, wy, pz + oz))
       \<and> uploads (snd (drag_step st (PointerMove e)))
           = map (\<lambda>u. if u_id u = i then u\<lparr>u_position := (px + ox, wy, pz + oz)\<rparr> else u)
               (uploads (snd st))
       \<and> uploadObjectMapRef (snd (drag_step st (PointerMove e))) i
           = Some (obj\<lparr>o_position := (px + ox, wy, pz + oz)\<rparr>)
       \<and> (o_parent obj = SceneRoot \<longrightarrow>
            getWorldPosition agv (obj\<lparr>o_position := (px + ox, wy, pz + oz)\<rparr>)
              = (px + ox, wy, pz + oz))
       \<and> dragYRef (fst (drag_step st (PointerMove e))) = Some wy
       \<and> dragOffsetRef (fst (drag_step st (PointerMove e))) = Some (ox, oy, oz)
       \<and> (\<forall>qx qy qz. intersectPlane (pointerRay e0) wy = Some (qx, qy, qz) \<longrightarrow>
             (ox, oy, oz) = (wx - qx, 0, wz - qz))"
proof -
  define st1 where "st1 = drag_step (d0, s0) (PointerDown e0 hits)"
  define pt where "pt = (px + ox, wy, pz + oz)"
  obtain d s where ds: "st = (d, s)" by (cases st)
  have g1: "draggingRef (fst st1)" "dragYRef (fst st1) = Some wy"
    "dragOffsetRef (fst st1) = Some (ox, oy, oz)" "draggedUploadId (snd st1) = Some i"
    using grab_state [OF assms(1,2), of d0 s0] assms(8) by (simp_all add: st1_def vy_def)
  have "session_frame st1 st"
    using drag_run_session [OF assms(3), of st1] assms(4) by (simp add: st1_def)
  with g1 have g: "draggingRef d" "dragYRef d = Some wy"
    "dragOffsetRef d = Some (ox, oy, oz)" "draggedUploadId s = Some i"
    by (simp_all add: session_frame_def ds)
  define d1 where "d1 = choose_mode e d"
  have c: "dragYRef d1 = Some wy" "dragOffsetRef d1 = Some (ox, oy, oz)"
    "\<not> arrowDownRef d1" "dragModeRef d1 = Some ModeXZ"
    using choose_mode_frame [of e d] g assms(5,6) by (simp_all add: d1_def ds)
  have hm: "horizontal_move g' e d1
      = (d1\<lparr>lastPointerRef := Some (clientX e, clientY e), dragPosRef := Some pt\<rparr>,
         Some (Move pt))" for g'
    using c assms(7) by (simp add: horizontal_move_def Let_def pt_def vx_def vz_def)
  have mv: "onPointerMove g' e d = horizontal_move g' e d1" for g'
    using g(1) c by (simp add: onPointerMove_def Let_def d1_def)
  have i: "i \<noteq> []"
    using find_grab_truthy [OF assms(2)] .
  have obj: "uploadObjectMapRef s i = Some obj"
    using assms(9) by (simp add: ds)
  have om: "onMove pt s
      = s\<lparr>uploads := map (\<lambda>u. if u_id u = i then u\<lparr>u_position := pt\<rparr> else u) (uploads s),
           selectedPos := Some pt,
           uploadObjectMapRef := (uploadObjectMapRef s)(i \<mapsto> obj\<lparr>o_position := pt\<rparr>)\<rparr>"
    using g(4) i obj
    by (simp add: onMove_def set_upload_position_def UploadedGLB_position_def position_set_def)
  have off: "(ox, oy, oz) = (wx - qx, 0, wz - qz)"
    if "intersectPlane (pointerRay e0) wy = Some (qx, qy, qz)" for qx qy qz
    using that assms(8) by (simp add: grab_offset_def vx_def vy_def vz_def)
  have world: "getWorldPosition agv (obj\<lparr>o_position := pt\<rparr>) = pt" if "o_parent obj = SceneRoot"
    using that by (simp add: getWorldPosition_def)
  show ?thesis
    using c(1,2) off world
    by (simp add: ds mv hm deliver_def om pt_def [symmetric])
qed

theorem horizontal_move_follows_plane_witness:
  "button demo_down = 0 \<and> find_grab demo_hits = Some (''box'', (1/2, 0, 0))
   \<and> list_all within_session []
   \<and> \<not> arrowDownRef (fst (drag_run (drag_step (DragMove_init, demo_page) (PointerDown demo_down demo_hits)) []))
   \<and> dragModeRef (choose_mode demo_right
        (fst (drag_run (drag_step (DragMove_init, demo_page) (PointerDown demo_down demo_hits)) [])))
       = Some ModeXZ
   \<and> intersectPlane (pointerRay demo_right) 0 = Some (3, 0, 4)
   \<and> grab_offset demo_down (1/2, 0, 0) = (1/2, 0, 0)
   \<and> snd (onPointerMove 0 demo_right
        (fst (drag_run (drag_step (DragMove_init, demo_page) (PointerDown demo_down demo_hits)) [])))
       = Some (Move (7/2, 0, 4))
   \<and> uploadObjectMapRef (snd (drag_step
        (drag_run (drag_step (DragMove_init, demo_page) (PointerDown demo_down demo_hits)) [])
        (PointerMove demo_right))) ''box''
       = Some \<lparr>o_parent = SceneRoot, o_position = (7/2, 0, 4)\<rparr>"
proof -
  have h: "button demo_down = 0" "find_grab demo_hits = Some (''box'', (1/2, 0, 0))"
    "list_all within_session []"
    by (simp_all add: demo_down_def demo_grab)
  have k: "\<not> arrowDownRef (fst (drag_run (drag_step (DragMove_init, demo_page) (PointerDown demo_down demo_hits)) []))"
    "dragModeRef (choose_mode demo_right
        (fst (drag_run (drag_step (DragMove_init, demo_page) (PointerDown demo_down demo_hits)) [])))
       = Some ModeXZ"
    unfolding demo_after_down drag_run_def
    by (simp_all add: choose_mode_def lastPointer_def demo_right_def Let_def)
  have p: "intersectPlane (pointerRay demo_right) 0 = Some (3, 0, 4)"
    by (simp add: demo_right_def intersect_down)
  have o: "grab_offset demo_down (1/2, 0, 0) = (1/2, 0, 0)"
    by (simp add: grab_offset_def demo_down_def intersect_down vx_def vy_def vz_def)
  have m: "uploadObjectMapRef (snd (drag_run (drag_step (DragMove_init, demo_page)
        (PointerDown demo_down demo_hits)) [])) ''box'' = Some demo_obj"
    unfolding demo_after_down drag_run_def by (simp add: demo_page_def)
  show ?thesis
    using horizontal_move_follows_plane [OF h refl k p o m, of 0] h k p o
    by (simp add: demo_obj_def)
qed

subsection \<open>Hover picking\<close>

text \<open>
  C8 fails as stated: with a wheel of the vehicle alone under the pointer the loop
  chooses nothing and the fallback \<^verbatim>\<open>hits[0].object\<close> is the wheel; the same
  happens when the only hit outside the vehicle has a bounding box of volume zero.
\<close>

theorem pick_vehicle_counterexample:
  "pick_hit (Some ''agv'') [demo_wheel] = Some demo_wheel
   \<and> in_vehicle (Some ''agv'') demo_wheel
   \<and> pick_hit (Some ''agv'') [demo_wheel, demo_small\<lparr>h_size := (1, 0, 1)\<rparr>] = Some demo_wheel
   \<and> \<not> in_vehicle (Some ''agv'') (demo_small\<lparr>h_size := (1, 0, 1)\<rparr>)"
  by (simp add: pick_hit_def pick_best_def pick_step_def in_vehicle_def isDescendantOf_def
      demo_wheel_def demo_small_def bbox_volume_def Let_def vx_def vy_def vz_def)

text \<open>
  C8, amended.  When some hit lies outside the vehicle subtree with a bounding volume
  that is not zero, the hit chosen is such a hit, and none of them has a smaller volume
  (so a node of the vehicle subtree and a hit of volume zero are not chosen; of two
  such hits with volumes V1 < V2 the V1 hit is chosen, in either order along the ray).
  When no hit is of that kind, the hit chosen is the first one along the ray.
\<close>

theorem pick_smallest_volume:
  "((\<exists>h\<in>set hits. candidate agv h) \<longrightarrow>
      (\<exists>b. pick_hit agv hits = Some b \<and> b \<in> set hits
           \<and> \<not> in_vehicle agv b \<and> bbox_volume (h_size b) \<noteq> None
           \<and> (\<forall>h\<in>set hits. candidate agv h \<longrightarrow>
                 \<not> volume_less (bbox_volume (h_size h)) (bbox_volume (h_size b)))))
   \<and> (hits \<noteq> [] \<and> \<not> (\<exists>h\<in>set hits. candidate agv h) \<longrightarrow> pick_hit agv hits = Some (hd hits))
   \<and> (candidate agv h1 \<and> candidate agv h2
        \<and> volume_less (bbox_volume (h_size h1)) (bbox_volume (h_size h2)) \<longrightarrow>
        pick_hit agv [h1, h2] = Some h1 \<and> pick_hit agv [h2, h1] = Some h1)"
proof (intro conjI impI)
  assume "\<exists>h\<in>set hits. candidate agv h"
  from pick_hit_candidates [OF this]
  show "\<exists>b. pick_hit agv hits = Some b \<and> b \<in> set hits
           \<and> \<not> in_vehicle agv b \<and> bbox_volume (h_size b) \<noteq> None
           \<and> (\<forall>h\<in>set hits. candidate agv h \<longrightarrow>
                 \<not> volume_less (bbox_volume (h_size h)) (bbox_volume (h_size b)))"
    by (auto simp: candidate_def)
next
  assume "hits \<noteq> [] \<and> \<not> (\<exists>h\<in>set hits. candidate agv h)"
  then show "pick_hit agv hits = Some (hd hits)"
    using pick_hit_fallback by blast
next
  assume a: "candidate agv h1 \<and> candidate agv h2
        \<and> volume_less (bbox_volume (h_size h1)) (bbox_volume (h_size h2))"
  then show "pick_hit agv [h1, h2] = Some h1" using pick_hit_two by blast
  from a show "pick_hit agv [h2, h1] = Some h1" using pick_hit_two by blast
qed

theorem pick_smallest_volume_witness:
  "candidate (Some ''agv'') demo_small \<and> candidate (Some ''agv'') demo_large
   \<and> volume_less (bbox_volume (h_size demo_small)) (bbox_volume (h_size demo_large))
   \<and> pick_hit (Some ''agv'') [demo_large, demo_small] = Some demo_small
   \<and> pick_hit (Some ''agv'') [demo_small, demo_large] = Some demo_small"
proof -
  have c: "candidate (Some ''agv'') demo_small" "candidate (Some ''agv'') demo_large"
    "volume_less (bbox_volume (h_size demo_small)) (bbox_volume (h_size demo_large))"
    by (simp_all add: candidate_def in_vehicle_def isDescendantOf_def demo_small_def
        demo_large_def bbox_volume_def Let_def vx_def vy_def vz_def)
  show ?thesis
    using pick_smallest_volume [of "[]" "Some ''agv''" demo_small demo_large] c by simp
qed

subsection \<open>Camera rig\<close>

text \<open>
  C9 at a camera that enters the mode below the ground.  The camera is twenty units
  below the vehicle, where the orbit controls can leave it; a frame of a third of a
  second in the mode FOLLOW clamps the point it moves toward to 1.8, above
  ground + 0.2 = 0.19, and moves the camera nine tenths of the way, to the height
  -0.38: below ground + 0.2 and below the ground plane at -0.01 itself.
\<close>

theorem follow_frame_leaves_camera_below_ground:
  "rig_groundY demo_rig = -1/100
   \<and> vy (clamp_above_ground (rig_groundY demo_rig) (follow_target demo_rig)) = 9/5
   \<and> 1 - (0.001::real) powr (1/3) = 9/10
   \<and> vy (cameraRig FOLLOW (1/3) (Some demo_rig) (0, -20, 0)) = -19/50
   \<and> vy (cameraRig FOLLOW (1/3) (Some demo_rig) (0, -20, 0)) < rig_groundY demo_rig + 0.2
   \<and> vy (cameraRig FOLLOW (1/3) (Some demo_rig) (0, -20, 0)) < rig_groundY demo_rig"
proof -
  have g: "rig_groundY demo_rig = -0.01"
    by (simp add: rig_groundY_def hint_def demo_rig_def)
  have t: "follow_target demo_rig = (0, 1.8, 4.8)"
    by (simp add: follow_target_def hint_def demo_rig_def applyRotationY_def Let_def
        vx_def vy_def vz_def)
  have c: "vy (cameraRig FOLLOW (1/3) (Some demo_rig) (0, -20, 0)) = -19/50"
    by (simp add: cameraRig_def g t clamp_above_ground_def lerp_def powr_third vx_def vy_def vz_def)
  have k: "vy (clamp_above_ground (rig_groundY demo_rig) (follow_target demo_rig)) = 9/5"
    by (simp add: g t clamp_above_ground_def vy_def)
  have g': "rig_groundY demo_rig = -1/100"
    using g by simp
  have a: "1 - (0.001::real) powr (1/3) = 9/10"
    by (simp add: powr_third)
  have l1: "vy (cameraRig FOLLOW (1/3) (Some demo_rig) (0, -20, 0)) < rig_groundY demo_rig + 0.2"
    by (simp add: c g)
  have l2: "vy (cameraRig FOLLOW (1/3) (Some demo_rig) (0, -20, 0)) < rig_groundY demo_rig"
    by (simp add: c g)
  show ?thesis
    by (intro conjI g' k a c l1 l2)
qed

text \<open>
  What the rig keeps: in the modes FOLLOW and FPV a frame moves the height of the
  camera by the fraction \<open>1 - k\<^sup>d\<^sup>t\<close> of the way to the height of its target clamped
  at ground + 0.2, so a frame with \<open>dt \<ge> 0\<close> leaves the camera at ground + 0.2 or
  higher whenever it was there before the frame.
\<close>

theorem camera_stays_above_ground:
  "vy (cameraRig FOLLOW dt (Some agv) camera)
     = vy camera + (max (vy (follow_target agv)) (rig_groundY agv + 0.2) - vy camera)
                     * (1 - 0.001 powr dt)
   \<and> (fpv_local agv = Some f \<longrightarrow>
        vy (cameraRig FPV dt (Some agv) camera)
          = vy camera + (max (vy (localToWorld (AgvGroup.truncate agv) f)) (rig_groundY agv + 0.2)
                          - vy camera) * (1 - 0.0001 powr dt))
   \<and> (fpv_local agv = None \<longrightarrow> cameraRig FPV dt (Some agv) camera = camera)
   \<and> ((mode = FOLLOW \<or> mode = FPV) \<and> 0 \<le> dt \<and> rig_groundY agv + 0.2 \<le> vy camera \<longrightarrow>
        rig_groundY agv + 0.2 \<le> vy (cameraRig mode dt (Some agv) camera))"
proof (intro conjI impI)
  show "vy (cameraRig FOLLOW dt (Some agv) camera)
     = vy camera + (max (vy (follow_target agv)) (rig_groundY agv + 0.2) - vy camera)
                     * (1 - 0.001 powr dt)"
    by (simp add: cameraRig_def lerp_def clamp_above_ground_def vy_def)
next
  assume "fpv_local agv = Some f"
  then show "vy (cameraRig FPV dt (Some agv) camera)
          = vy camera + (max (vy (localToWorld (AgvGroup.truncate agv) f)) (rig_groundY agv + 0.2)
                          - vy camera) * (1 - 0.0001 powr dt)"
    by (simp add: cameraRig_def lerp_def clamp_above_ground_def vy_def)
next
  assume "fpv_local agv = None"
  then show "cameraRig FPV dt (Some agv) camera = camera"
    by (simp add: cameraRig_def)
next
  assume a: "(mode = FOLLOW \<or> mode = FPV) \<and> 0 \<le> dt \<and> rig_groundY agv + 0.2 \<le> vy camera"
  then have dt: "0 \<le> dt" and c: "rig_groundY agv + 0.2 \<le> vy camera" by simp_all
  have step: "rig_groundY agv + 0.2 \<le> vy (lerp camera (clamp_above_ground (rig_groundY agv) w) (1 - k powr dt))"
    if "0 < k" and "k \<le> 1" for k w
    using lerp_above [OF _ _ c clamp_above] lerp_factor_range [OF that dt] by simp
  from a consider "mode = FOLLOW" | "mode = FPV" by blast
  then show "rig_groundY agv + 0.2 \<le> vy (cameraRig mode dt (Some agv) camera)"
  proof cases
    case 1
    then show ?thesis using step [of "0.001"] by (simp add: cameraRig_def)
  next
    case 2
    then show ?thesis using step [of "0.0001"] c by (simp add: cameraRig_def split: option.splits)
  qed
qed

theorem camera_stays_above_ground_witness:
  "(0::real) \<le> 1/3 \<and> rig_groundY demo_rig + 0.2 \<le> vy (0, 5, 0)
   \<and> rig_groundY demo_rig + 0.2 \<le> vy (cameraRig FOLLOW (1/3) (Some demo_rig) (0, 5, 0))
   \<and> rig_groundY demo_rig + 0.2 \<le> vy (cameraRig FPV (1/3) (Some demo_rig) (0, 5, 0))"
proof -
  have g: "rig_groundY demo_rig + 0.2 \<le> vy (0, 5, 0)"
    by (simp add: rig_groundY_def hint_def demo_rig_def vy_def)
  show ?thesis
    using camera_stays_above_ground [of "1/3" demo_rig "(0, 5, 0)" "(0, 0, 0)" FOLLOW]
      camera_stays_above_ground [of "1/3" demo_rig "(0, 5, 0)" "(0, 0, 0)" FPV] g
    by simp
qed

subsection \<open>Upload route\<close>

text \<open>
  C10.  With an absolute working directory, a POST whose field \<open>file\<close> is a file
  writes it at the uploads directory \<open>join(cwd, "public", "uploads")\<close>, a slash, and
  the stored name; the stored name is the text of the timestamp, a hyphen, and the
  basename of the client's filename with every character outside
  \<open>[a-zA-Z0-9._-]\<close> replaced by an underscore; it has no slash in it and is neither
  \<open>.\<close> nor \<open>..\<close>, whatever the client's filename is.
\<close>

theorem upload_stored_name_and_path:
  assumes "cwd = CHR ''/'' # rest"
  shows "POST cwd stamp (FileField fname buf)
           = Inr \<lparr>up_filePath = uploadDir cwd @ ''/'' @ safeName stamp fname, up_buf = buf,
                  up_url = ''/uploads/'' @ safeName stamp fname, up_name = safeName stamp fname\<rparr>
       \<and> safeName stamp fname
           = number_text stamp @ ''-''
             @ map (\<lambda>c. if safe_char c then c else CHR ''_'') (basename fname)
       \<and> list_all safe_char (safeName stamp fname)
       \<and> CHR ''/'' \<notin> set (safeName stamp fname)
       \<and> safeName stamp fname \<noteq> ''.'' \<and> safeName stamp fname \<noteq> ''..''
       \<and> safeName stamp fname \<noteq> []"
proof -
  note p = safeName_plain [of stamp fname]
  have "path_join [uploadDir cwd, safeName stamp fname]
          = uploadDir cwd @ ''/'' @ safeName stamp fname"
    using join_under_uploadDir [OF assms p] by simp
  moreover have "list_all safe_char (safeName stamp fname)"
    using safeName_safe [of stamp fname] by (simp add: list_all_iff)
  ultimately show ?thesis
    using p by (simp add: POST_def Let_def plain_segment_def safeName_def sanitize_def)
qed

theorem upload_stored_name_and_path_witness:
  "POST ''/app'' 1700000000000 (FileField ''../../etc/pass wd'' [1, 2, 3])
     = Inr \<lparr>up_filePath = ''/app/public/uploads/1700000000000-pass_wd'', up_buf = [1, 2, 3],
            up_url = ''/uploads/1700000000000-pass_wd'', up_name = ''1700000000000-pass_wd''\<rparr>"
  using upload_stored_name_and_path [of "''/app''" "''app''" 1700000000000 "''../../etc/pass wd''" "[1, 2, 3]"]
  by (simp add: demo_safeName demo_uploadDir)

end
